theory Spec2Isabelle
  imports Main "HOL-Library.Sublist"
begin

section \<open>The timer loop of test-retry.py\<close>

text \<open>
  \<^verbatim>\<open>subprocess.run(["python", script_path], check=True)\<close> either starts the interpreter and
  waits for its exit status, or fails to start it (an \<^verbatim>\<open>OSError\<close>, which is not a
  \<^verbatim>\<open>CalledProcessError\<close>). A non-zero exit status raises \<^verbatim>\<open>CalledProcessError\<close>.
\<close>

datatype proc_result = Exited int | SpawnFailed

datatype retry_line = Running_script | An_error_occurred string int

text \<open>
  What the loop does to the outside: the number of runs started, the arguments of every
  \<^verbatim>\<open>time.sleep\<close> call in order, and the lines printed.
\<close>

record retry_state =
  runs :: nat
  sleeps :: "nat list"
  lines :: "retry_line list"

datatype retry_exc = OSError

text \<open>
  One pass through the body of \<^verbatim>\<open>while True\<close>. The environment \<open>script\<close> gives the outcome of
  the \<open>n\<close>-th run of a script path. \<open>Inl\<close> is an exception that the \<^verbatim>\<open>except\<close> clause does
  not catch and that leaves the loop.
\<close>

definition iteration ::
  "(string \<Rightarrow> nat \<Rightarrow> proc_result) \<Rightarrow> string \<Rightarrow> retry_state \<Rightarrow> (retry_exc \<times> retry_state) + retry_state" where
  "iteration script script_path s =
     (let s1 = s\<lparr>lines := lines s @ [Running_script]\<rparr>;
          s2 = s1\<lparr>runs := Suc (runs s1)\<rparr>
      in case script script_path (runs s) of
           SpawnFailed \<Rightarrow> Inl (OSError, s2)
         | Exited returncode \<Rightarrow>
             (let s3 = (if returncode = 0 then s2
                        else s2\<lparr>lines := lines s2 @ [An_error_occurred script_path returncode]\<rparr>)
              in Inr (s3\<lparr>sleeps := sleeps s3 @ [5]\<rparr>)))"

text \<open>
  The loop has no exit of its own: \<open>None\<close> is "never returns", \<open>Some\<close> is the uncaught
  exception that ended it.
\<close>

partial_function (option) run_script_every_5_seconds ::
  "(string \<Rightarrow> nat \<Rightarrow> proc_result) \<Rightarrow> string \<Rightarrow> retry_state \<Rightarrow> (retry_exc \<times> retry_state) option" where
  "run_script_every_5_seconds script script_path s =
     (case iteration script script_path s of
        Inl e \<Rightarrow> Some e
      | Inr s' \<Rightarrow> run_script_every_5_seconds script script_path s')"

text \<open>The first \<open>n\<close> passes of the loop, for looking at the state it has reached.\<close>

fun passes ::
  "(string \<Rightarrow> nat \<Rightarrow> proc_result) \<Rightarrow> string \<Rightarrow> nat \<Rightarrow> retry_state \<Rightarrow> (retry_exc \<times> retry_state) + retry_state" where
  "passes script script_path 0 s = Inr s"
| "passes script script_path (Suc n) s =
     (case iteration script script_path s of
        Inl e \<Rightarrow> Inl e
      | Inr s' \<Rightarrow> passes script script_path n s')"

text \<open>
  The lines one pass prints, given the outcome of its run: the announcement, and the
  error line when the exit status is not zero.
\<close>

definition pass_lines :: "(string \<Rightarrow> nat \<Rightarrow> proc_result) \<Rightarrow> string \<Rightarrow> nat \<Rightarrow> retry_line list" where
  "pass_lines script script_path k =
     (case script script_path k of
        SpawnFailed \<Rightarrow> [Running_script]
      | Exited returncode \<Rightarrow>
          (if returncode = 0 then [Running_script]
           else [Running_script, An_error_occurred script_path returncode]))"

definition retry_start :: retry_state where
  "retry_start = \<lparr>runs = 0, sleeps = [], lines = []\<rparr>"

definition always_failing :: "string \<Rightarrow> nat \<Rightarrow> proc_result" where
  "always_failing p n = Exited 1"

section \<open>The upload of s3\_example\_upload.py\<close>

text \<open>
  A Python exception is either an instance of \<^verbatim>\<open>Exception\<close>, which \<^verbatim>\<open>except Exception\<close>
  catches, or of \<^verbatim>\<open>BaseException\<close> only (\<^verbatim>\<open>KeyboardInterrupt\<close>, \<^verbatim>\<open>SystemExit\<close>), which only a
  bare \<^verbatim>\<open>except:\<close> catches. The string is what \<^verbatim>\<open>print(e)\<close> shows.
\<close>

datatype pyexc = Exception string | BaseException string

fun exc_message :: "pyexc \<Rightarrow> string" where
  "exc_message (Exception m) = m"
| "exc_message (BaseException m) = m"

text \<open>The outcomes of the three boto3 calls; \<open>None\<close> is a normal return.\<close>

record s3_env =
  client :: "pyexc option"
  head_object :: "string \<Rightarrow> string \<Rightarrow> pyexc option"
  upload_file :: "string \<Rightarrow> string \<Rightarrow> string \<Rightarrow> pyexc option"

datatype s3_call = HeadObject string string | UploadFile string string string

record upload_state =
  calls :: "s3_call list"
  printed :: "string list"

definition exists_msg :: "string \<Rightarrow> string \<Rightarrow> string" where
  "exists_msg s3_path bucket_name =
     ''File already exists at '' @ s3_path @ '' in bucket '' @ bucket_name @ ''.''"

definition uploaded_msg :: "string \<Rightarrow> string \<Rightarrow> string" where
  "uploaded_msg s3_path bucket_name =
     ''File uploaded to '' @ s3_path @ '' in bucket '' @ bucket_name @ ''.''"

text \<open>
  The result is the exception that reaches the caller, if any; the function has no return
  value. \<^verbatim>\<open>boto3.client\<close> is called before the outer \<^verbatim>\<open>try\<close>; the inner handler is a bare
  \<^verbatim>\<open>except:\<close>, the outer one is \<^verbatim>\<open>except Exception\<close>.
\<close>

definition upload_file_to_s3_if_not_exists ::
  "s3_env \<Rightarrow> string \<Rightarrow> string \<Rightarrow> string \<Rightarrow> upload_state \<Rightarrow> pyexc option \<times> upload_state" where
  "upload_file_to_s3_if_not_exists env file_path bucket_name s3_path s =
     (case client env of
        Some e \<Rightarrow> (Some e, s)
      | None \<Rightarrow>
          (let s1 = s\<lparr>calls := calls s @ [HeadObject bucket_name s3_path]\<rparr>
           in case head_object env bucket_name s3_path of
                None \<Rightarrow> (None, s1\<lparr>printed := printed s1 @ [exists_msg s3_path bucket_name]\<rparr>)
              | Some e1 \<Rightarrow>
                  (let s2 = s1\<lparr>calls := calls s1 @ [UploadFile file_path bucket_name s3_path]\<rparr>
                   in case upload_file env file_path bucket_name s3_path of
                        None \<Rightarrow> (None, s2\<lparr>printed := printed s2 @ [uploaded_msg s3_path bucket_name]\<rparr>)
                      | Some (Exception m) \<Rightarrow> (None, s2\<lparr>printed := printed s2 @ [m]\<rparr>)
                      | Some (BaseException m) \<Rightarrow> (Some (BaseException m), s2))))"

definition upload_start :: upload_state where
  "upload_start = \<lparr>calls = [], printed = []\<rparr>"

text \<open>An object store that refuses the existence check and accepts the upload.\<close>

definition forbidden_head :: s3_env where
  "forbidden_head =
     \<lparr>client = None,
      head_object = (\<lambda>b k. Some (Exception ''An error occurred (403)'')),
      upload_file = (\<lambda>f b k. None)\<rparr>"

section \<open>The read-through cache of file-fetch-caching.py\<close>

subsection \<open>Path strings (posixpath)\<close>

definition CACHE_DIR :: string where
  "CACHE_DIR = ''cache''"

text \<open>
  \<^verbatim>\<open>os.path.join(a, b)\<close> for two arguments: an absolute \<open>b\<close> replaces \<open>a\<close>; otherwise the two
  are put together with one separator unless \<open>a\<close> is empty or already ends with one.
\<close>

definition path_join :: "string \<Rightarrow> string \<Rightarrow> string" where
  "path_join a b =
     (if take 1 b = ''/'' then b
      else if a = [] \<or> last a = CHR ''/'' then a @ b
      else a @ ''/'' @ b)"

text \<open>
  \<^verbatim>\<open>os.path.dirname(p)\<close>: the part up to and including the last separator, with its
  trailing separators stripped unless it consists of separators only.
\<close>

definition dirname :: "string \<Rightarrow> string" where
  "dirname p =
     (let head = rev (dropWhile (\<lambda>c. c \<noteq> CHR ''/'') (rev p))
      in if dropWhile (\<lambda>c. c = CHR ''/'') head = [] then head
         else rev (dropWhile (\<lambda>c. c = CHR ''/'') (rev head)))"

text \<open>The components of a path string, as the operating system reads them: split at \<open>/\<close>.\<close>

fun components :: "string \<Rightarrow> string list" where
  "components [] = [[]]"
| "components (c # cs) =
     (if c = CHR ''/'' then [] # components cs
      else (case components cs of
              [] \<Rightarrow> [[c]]
            | x # xs \<Rightarrow> (c # x) # xs))"

subsection \<open>The file system\<close>

text \<open>
  A location is the list of names from the root directory; the file system maps the
  locations that exist to a regular file with its bytes or to a directory. Path strings
  are resolved against it one component at a time, as POSIX does without symbolic links:
  an empty component and \<open>.\<close> stay, \<open>..\<close> goes to the parent, and every component is
  looked up in a location that must be a directory. So different path strings can
  resolve to the same location. Failures of the disk itself (no space left, no
  permission) are outside the model: writing to an open file succeeds.
\<close>

datatype node = File string | Dir

type_synonym loc = "string list"
type_synonym fs = "loc \<Rightarrow> node option"

datatype error =
  ConnectionError | HTTPError nat | ChunkedEncodingError
  | FileNotFoundError | NotADirectoryError | FileExistsError | IsADirectoryError

definition step :: "loc \<Rightarrow> string \<Rightarrow> loc" where
  "step cur c =
     (if c = [] \<or> c = ''.'' then cur
      else if c = ''..'' then butlast cur
      else cur @ [c])"

fun walk :: "fs \<Rightarrow> loc \<Rightarrow> string list \<Rightarrow> error + loc" where
  "walk fs cur [] = Inr cur"
| "walk fs cur (c # cs) =
     (case fs cur of
        Some Dir \<Rightarrow> walk fs (step cur c) cs
      | Some (File bs) \<Rightarrow> Inl NotADirectoryError
      | None \<Rightarrow> Inl FileNotFoundError)"

text \<open>An absolute path starts at the root, a relative one at the working directory.\<close>

definition start :: "loc \<Rightarrow> string \<Rightarrow> loc" where
  "start cwd p = (if take 1 p = ''/'' then [] else cwd)"

definition namei :: "fs \<Rightarrow> loc \<Rightarrow> string \<Rightarrow> error + loc" where
  "namei fs cwd p =
     (if p = [] then Inl FileNotFoundError else walk fs (start cwd p) (components p))"

text \<open>\<^verbatim>\<open>os.path.exists(p)\<close>: true for a file and for a directory, false when the lookup fails.\<close>

definition path_exists :: "fs \<Rightarrow> loc \<Rightarrow> string \<Rightarrow> bool" where
  "path_exists fs cwd p =
     (case namei fs cwd p of Inl e \<Rightarrow> False | Inr l \<Rightarrow> fs l \<noteq> None)"

text \<open>
  \<^verbatim>\<open>os.makedirs(name, exist_ok=True)\<close>: every missing directory along the path is created,
  an existing directory is accepted, a regular file in the way is an error. The
  directories made before an error stay.
\<close>

fun makedirs_from :: "fs \<Rightarrow> loc \<Rightarrow> string list \<Rightarrow> error option \<times> fs" where
  "makedirs_from fs cur [] = (None, fs)"
| "makedirs_from fs cur (c # cs) =
     (case fs (step cur c) of
        None \<Rightarrow> makedirs_from (fs(step cur c \<mapsto> Dir)) (step cur c) cs
      | Some Dir \<Rightarrow> makedirs_from fs (step cur c) cs
      | Some (File bs) \<Rightarrow>
          (Some (if cs = [] then FileExistsError else NotADirectoryError), fs))"

definition makedirs :: "fs \<Rightarrow> loc \<Rightarrow> string \<Rightarrow> error option \<times> fs" where
  "makedirs fs cwd name =
     (if name = [] then (Some FileNotFoundError, fs)
      else (case fs (start cwd name) of
              Some Dir \<Rightarrow> makedirs_from fs (start cwd name) (components name)
            | Some (File bs) \<Rightarrow> (Some NotADirectoryError, fs)
            | None \<Rightarrow> (Some FileNotFoundError, fs)))"

text \<open>
  \<^verbatim>\<open>open(p, 'wb')\<close>: the file is created, or truncated when it exists; a directory cannot
  be opened for writing. The result is the location the handle writes to.
\<close>

definition open_wb :: "fs \<Rightarrow> loc \<Rightarrow> string \<Rightarrow> error + loc \<times> fs" where
  "open_wb fs cwd p =
     (case namei fs cwd p of
        Inl e \<Rightarrow> Inl e
      | Inr l \<Rightarrow>
          (case fs l of
             Some Dir \<Rightarrow> Inl IsADirectoryError
           | Some (File bs) \<Rightarrow> Inr (l, fs(l \<mapsto> File []))
           | None \<Rightarrow> Inr (l, fs(l \<mapsto> File []))))"

text \<open>\<^verbatim>\<open>file.write(chunk)\<close> appends to the open file.\<close>

definition file_write :: "fs \<Rightarrow> loc \<Rightarrow> string \<Rightarrow> fs" where
  "file_write fs l chunk =
     (case fs l of
        Some (File bs) \<Rightarrow> fs(l \<mapsto> File (bs @ chunk))
      | Some Dir \<Rightarrow> fs
      | None \<Rightarrow> fs)"

subsection \<open>The remote store\<close>

text \<open>
  What \<^verbatim>\<open>requests.get(url, stream=True)\<close> gives back: the status, the \<^verbatim>\<open>Content-Length\<close>
  header if there is one, and the body as the chunks that \<^verbatim>\<open>iter_content\<close> will deliver
  (each of at most 8192 bytes), ending normally (\<open>End\<close>) or with a transport failure
  in the middle of the transfer (\<open>Fail\<close>). The function never reads the header.
\<close>

datatype stream = End | Fail | Chunk string stream

record response =
  status_code :: nat
  content_length :: "nat option"
  body :: stream

fun received :: "stream \<Rightarrow> string" where
  "received End = []"
| "received Fail = []"
| "received (Chunk c rest) = c @ received rest"

fun complete :: "stream \<Rightarrow> bool" where
  "complete End = True"
| "complete Fail = False"
| "complete (Chunk c rest) = complete rest"

text \<open>The loop \<^verbatim>\<open>for chunk in response.iter_content(chunk_size=8192): file.write(chunk)\<close>.\<close>

fun write_chunks :: "fs \<Rightarrow> loc \<Rightarrow> stream \<Rightarrow> error option \<times> fs" where
  "write_chunks fs l End = (None, fs)"
| "write_chunks fs l Fail = (Some ChunkedEncodingError, fs)"
| "write_chunks fs l (Chunk c rest) = write_chunks (file_write fs l c) l rest"

subsection \<open>fetch\_s3\_file\<close>

text \<open>
  The state the function acts on: the file system, the URLs requested over the network
  so far (the fetch count is the length of this list), and the lines printed.
\<close>

record world =
  files :: fs
  requests :: "string list"
  stdout :: "string list"

definition s3_url :: "string \<Rightarrow> string \<Rightarrow> string" where
  "s3_url bucket_name file_key = ''https://'' @ bucket_name @ ''.s3.amazonaws.com/'' @ file_key"

definition found_msg :: "string \<Rightarrow> string" where
  "found_msg file_key = ''File '' @ file_key @ '' found in cache. No need to fetch again!''"

definition fetched_msg :: "string \<Rightarrow> string" where
  "fetched_msg file_key = ''File '' @ file_key @ '' fetched from S3 and saved to cache.''"

text \<open>
  Lines 17 to 23 of the source: make the directories, open the final path itself for
  writing, write the chunks as they arrive, print and return. An exception leaves the
  function with whatever has been written so far.
\<close>

definition download ::
  "response \<Rightarrow> loc \<Rightarrow> string \<Rightarrow> string \<Rightarrow> world \<Rightarrow> (error + string) \<times> world" where
  "download resp cwd file_key local_path w =
     (case makedirs (files w) cwd (dirname local_path) of
        (Some e, fs1) \<Rightarrow> (Inl e, w\<lparr>files := fs1\<rparr>)
      | (None, fs1) \<Rightarrow>
          (case open_wb fs1 cwd local_path of
             Inl e \<Rightarrow> (Inl e, w\<lparr>files := fs1\<rparr>)
           | Inr (l, fs2) \<Rightarrow>
               (case write_chunks fs2 l (body resp) of
                  (Some e, fs3) \<Rightarrow> (Inl e, w\<lparr>files := fs3\<rparr>)
                | (None, fs3) \<Rightarrow>
                    (Inr local_path,
                     w\<lparr>files := fs3, stdout := stdout w @ [fetched_msg file_key]\<rparr>))))"

text \<open>
  Lines 6 to 15, then \<open>download\<close>. \<open>remote\<close> is the network at the time of the call:
  \<open>Inl\<close> when \<^verbatim>\<open>requests.get\<close> itself raises; \<^verbatim>\<open>raise_for_status\<close> raises for a status
  from 400 to 599. \<open>cwd\<close> is the working directory of the process.
\<close>

definition fetch_s3_file ::
  "(string \<Rightarrow> error + response) \<Rightarrow> loc \<Rightarrow> string \<Rightarrow> string \<Rightarrow> world \<Rightarrow> (error + string) \<times> world" where
  "fetch_s3_file remote cwd bucket_name file_key w =
     (let local_path = path_join CACHE_DIR file_key
      in if path_exists (files w) cwd local_path
         then (Inr local_path, w\<lparr>stdout := stdout w @ [found_msg file_key]\<rparr>)
         else
           (let w1 = w\<lparr>requests := requests w @ [s3_url bucket_name file_key]\<rparr>
            in case remote (s3_url bucket_name file_key) of
                 Inl e \<Rightarrow> (Inl e, w1)
               | Inr resp \<Rightarrow>
                   if 400 \<le> status_code resp \<and> status_code resp < 600
                   then (Inl (HTTPError (status_code resp)), w1)
                   else download resp cwd file_key local_path w1))"

subsection \<open>The words of the specification\<close>

text \<open>
  These three follow the specification, not the source, which has no counterpart for
  them. The integrity check of a cache entry: it is a file whose size is the one
  recorded from the response at fetch time. A complete copy: the entry is a file
  holding exactly the bytes of the remote object. An invalid key: empty, with a \<open>..\<close>
  segment, or absolute.
\<close>

definition spec_integrity_check :: "response \<Rightarrow> node \<Rightarrow> bool" where
  "spec_integrity_check recorded entry =
     (case entry of
        File bs \<Rightarrow> content_length recorded = Some (length bs)
      | Dir \<Rightarrow> False)"


definition spec_invalid_key :: "string \<Rightarrow> bool" where
  "spec_invalid_key key = (key = [] \<or> ''..'' \<in> set (components key) \<or> take 1 key = ''/'')"

text \<open>A plain key: relative, and every segment a real name.\<close>

definition plain_key :: "string \<Rightarrow> bool" where
  "plain_key key = list_all (\<lambda>c. c \<noteq> [] \<and> c \<noteq> ''.'' \<and> c \<noteq> ''..'') (components key)"

text \<open>
  A well-formed file system: whatever exists, apart from the root, lies in a directory.
\<close>

definition wf_fs :: "fs \<Rightarrow> bool" where
  "wf_fs fs = (\<forall>l. fs l \<noteq> None \<longrightarrow> l = [] \<or> fs (butlast l) = Some Dir)"

subsection \<open>Concrete states and remote stores\<close>

definition home :: loc where
  "home = [''home'']"

definition disk0 :: fs where
  "disk0 = [[] \<mapsto> Dir, [''home''] \<mapsto> Dir]"

text \<open>A fresh process in \<open>/home\<close> with no cache directory yet.\<close>

definition world0 :: world where
  "world0 = \<lparr>files = disk0, requests = [], stdout = []\<rparr>"

definition not_found :: response where
  "not_found = \<lparr>status_code = 404, content_length = None, body = End\<rparr>"

definition object_abcd :: response where
  "object_abcd = \<lparr>status_code = 200, content_length = Some 4, body = Chunk ''ab'' (Chunk ''cd'' End)\<rparr>"

definition object_zz :: response where
  "object_zz = \<lparr>status_code = 200, content_length = Some 2, body = Chunk ''zz'' End\<rparr>"

text \<open>The four-byte object whose transfer breaks after half of the bytes.\<close>

definition broken_abcd :: response where
  "broken_abcd = \<lparr>status_code = 200, content_length = Some 4, body = Chunk ''ab'' Fail\<rparr>"

definition serves :: "string \<Rightarrow> response \<Rightarrow> string \<Rightarrow> error + response" where
  "serves url resp u = (if u = url then Inr resp else Inr not_found)"

text \<open>The state after the broken transfer of \<open>a/b\<close> into \<open>world0\<close>.\<close>

definition world_partial :: world where
  "world_partial =
     \<lparr>files = disk0([''home'', ''cache''] \<mapsto> Dir, [''home'', ''cache'', ''a''] \<mapsto> Dir,
                    [''home'', ''cache'', ''a'', ''b''] \<mapsto> File ''ab''),
      requests = [''https://bkt.s3.amazonaws.com/a/b''], stdout = []\<rparr>"

text \<open>The state after the complete transfer of \<open>a/b\<close> into \<open>world0\<close>.\<close>

definition world_fetched :: world where
  "world_fetched =
     \<lparr>files = disk0([''home'', ''cache''] \<mapsto> Dir, [''home'', ''cache'', ''a''] \<mapsto> Dir,
                    [''home'', ''cache'', ''a'', ''b''] \<mapsto> File ''abcd''),
      requests = [''https://bkt.s3.amazonaws.com/a/b''],
      stdout = [''File a/b fetched from S3 and saved to cache.'']\<rparr>"

text \<open>The state after the complete transfer of \<open>a/b2\<close> into \<open>world_fetched\<close>.\<close>

definition world_fetched2 :: world where
  "world_fetched2 =
     \<lparr>files = disk0([''home'', ''cache''] \<mapsto> Dir, [''home'', ''cache'', ''a''] \<mapsto> Dir,
                    [''home'', ''cache'', ''a'', ''b''] \<mapsto> File ''abcd'',
                    [''home'', ''cache'', ''a'', ''b2''] \<mapsto> File ''zz''),
      requests = [''https://bkt.s3.amazonaws.com/a/b'', ''https://bkt.s3.amazonaws.com/a/b2''],
      stdout = [''File a/b fetched from S3 and saved to cache.'',
                ''File a/b2 fetched from S3 and saved to cache.'']\<rparr>"

text \<open>A fresh process that finds \<open>a/b\<close> in the cache left by an earlier run.\<close>

definition world_cached :: world where
  "world_cached =
     \<lparr>files = disk0([''home'', ''cache''] \<mapsto> Dir, [''home'', ''cache'', ''a''] \<mapsto> Dir,
                    [''home'', ''cache'', ''a'', ''b''] \<mapsto> File ''abcd''),
      requests = [], stdout = []\<rparr>"

section \<open>Properties of the timer loop\<close>

lemma iteration_Exited:
  "script p (runs s) = Exited rc \<Longrightarrow>
   \<exists>s'. iteration script p s = Inr s' \<and> runs s' = Suc (runs s) \<and> sleeps s' = sleeps s @ [5]"
  by (simp add: iteration_def Let_def)

lemma iteration_Exited_full:
  "script p (runs s) = Exited rc \<Longrightarrow>
   iteration script p s =
     Inr \<lparr>runs = Suc (runs s), sleeps = sleeps s @ [5],
          lines = lines s @ pass_lines script p (runs s)\<rparr>"
  by (simp add: iteration_def pass_lines_def Let_def)

lemma passes_Exited_full:
  "(\<And>n. \<exists>rc. script p n = Exited rc) \<Longrightarrow>
   passes script p n s =
     Inr \<lparr>runs = runs s + n, sleeps = sleeps s @ replicate n 5,
          lines = lines s @ concat (map (pass_lines script p) [runs s..<runs s + n])\<rparr>"
proof (induction n arbitrary: s)
  case 0
  then show ?case by simp
next
  case (Suc n)
  from Suc.prems obtain rc where "script p (runs s) = Exited rc" by blast
  from iteration_Exited_full [of script p s rc, OF this]
  have it: "iteration script p s =
     Inr \<lparr>runs = Suc (runs s), sleeps = sleeps s @ [5],
          lines = lines s @ pass_lines script p (runs s)\<rparr>" .
  have u: "[runs s..<runs s + Suc n] = runs s # [Suc (runs s)..<Suc (runs s) + n]"
    by (simp add: upt_conv_Cons)
  from Suc.IH [OF Suc.prems,
      of "\<lparr>runs = Suc (runs s), sleeps = sleeps s @ [5],
           lines = lines s @ pass_lines script p (runs s)\<rparr>"] it u
  show ?case by (simp add: replicate_app_Cons_same)
qed

lemma pass_lines_fun:
  "pass_lines script p =
     (\<lambda>k. case script p k of
            SpawnFailed \<Rightarrow> [Running_script]
          | Exited returncode \<Rightarrow>
              (if returncode = 0 then [Running_script]
               else [Running_script, An_error_occurred p returncode]))"
  by (rule ext) (simp add: pass_lines_def)

lemma loop_no_result_aux:
  assumes "run_script_every_5_seconds script p s = Some y"
  shows "\<not> (\<forall>n. \<exists>rc. script p n = Exited rc)"
proof (rule run_script_every_5_seconds.raw_induct
    [where P = "\<lambda>script p s y. \<not> (\<forall>n. \<exists>rc. script p n = Exited rc)", OF _ assms])
  fix loop :: "(string \<Rightarrow> nat \<Rightarrow> proc_result) \<Rightarrow> string \<Rightarrow> retry_state \<Rightarrow> (retry_exc \<times> retry_state) option"
  fix script p s y
  assume IH: "\<And>script p s y. loop script p s = Some y \<Longrightarrow> \<not> (\<forall>n. \<exists>rc. script p n = Exited rc)"
  assume unfolded:
    "(case iteration script p s of Inl e \<Rightarrow> Some e | Inr s' \<Rightarrow> loop script p s') = Some y"
  show "\<not> (\<forall>n. \<exists>rc. script p n = Exited rc)"
  proof
    assume exits: "\<forall>n. \<exists>rc. script p n = Exited rc"
    then obtain rc where "script p (runs s) = Exited rc" by blast
    from iteration_Exited [of script p s rc, OF this]
    obtain s1 where s1: "iteration script p s = Inr s1" by blast
    with unfolded have "loop script p s1 = Some y" by simp
    from IH [OF this] exits show False by blast
  qed
qed

lemma loop_no_result:
  assumes "\<And>n. \<exists>rc. script p n = Exited rc"
  shows "run_script_every_5_seconds script p s = None"
proof (cases "run_script_every_5_seconds script p s")
  case None
  then show ?thesis .
next
  case (Some y)
  from loop_no_result_aux [OF Some] assms show ?thesis by blast
qed

text \<open>
  C7 (as amended). The loop is not a bounded retry with backoff: whenever every run of the
  script can be started, whatever its exit status, the loop never returns, so no failure
  is surfaced to the caller. After any number \<open>n\<close> of passes it has started \<open>n\<close> runs,
  every sleep between them was the same 5 seconds, and each pass has printed the
  announcement followed, when the run exited with a non-zero status, by the error line
  for that status, and nothing else.
\<close>

theorem retry_loop_unbounded_fixed_delay:
  assumes "\<And>n. \<exists>rc. script p n = Exited rc"
  shows "run_script_every_5_seconds script p s = None \<and>
         passes script p n s =
           Inr \<lparr>runs = runs s + n, sleeps = sleeps s @ replicate n 5,
                lines = lines s @
                  concat (map (\<lambda>k. case script p k of
                                      SpawnFailed \<Rightarrow> [Running_script]
                                    | Exited returncode \<Rightarrow>
                                        (if returncode = 0 then [Running_script]
                                         else [Running_script, An_error_occurred p returncode]))
                              [runs s..<runs s + n])\<rparr>"
  using loop_no_result [of script p s] passes_Exited_full [of script p n s] assms
  unfolding pass_lines_fun by blast

theorem retry_loop_unbounded_fixed_delay_witness:
  "run_script_every_5_seconds always_failing ''test-notebook.py'' retry_start = None \<and>
   passes always_failing ''test-notebook.py'' 2 retry_start =
     Inr \<lparr>runs = 2, sleeps = [5, 5],
          lines = [Running_script, An_error_occurred ''test-notebook.py'' 1,
                   Running_script, An_error_occurred ''test-notebook.py'' 1]\<rparr>"
proof -
  have h: "\<And>n. \<exists>rc. always_failing ''test-notebook.py'' n = Exited rc"
    by (simp add: always_failing_def)
  have r: "replicate 2 (5::nat) = [5, 5]" by code_simp
  have u: "[0..<2] = [0, Suc 0]" by code_simp
  from retry_loop_unbounded_fixed_delay [of always_failing "''test-notebook.py''" retry_start 2, OF h]
  show ?thesis by (simp add: retry_start_def r u always_failing_def)
qed

text \<open>
  C7, the claim as stated, fails: with a script that fails on every run the loop does not
  stop after a bounded number of attempts (it never returns), and the third pass is reached
  with three failures printed and three sleeps of the same length.
\<close>

theorem retry_bounded_backoff_counterexample:
  "run_script_every_5_seconds always_failing ''test-notebook.py'' retry_start = None \<and>
   passes always_failing ''test-notebook.py'' 3 retry_start =
     Inr \<lparr>runs = 3, sleeps = [5, 5, 5],
          lines = [Running_script, An_error_occurred ''test-notebook.py'' 1,
                   Running_script, An_error_occurred ''test-notebook.py'' 1,
                   Running_script, An_error_occurred ''test-notebook.py'' 1]\<rparr>"
proof -
  have "\<And>n. \<exists>rc. always_failing ''test-notebook.py'' n = Exited rc"
    by (simp add: always_failing_def)
  then have "run_script_every_5_seconds always_failing ''test-notebook.py'' retry_start = None"
    by (rule loop_no_result)
  moreover have "passes always_failing ''test-notebook.py'' 3 retry_start =
     Inr \<lparr>runs = 3, sleeps = [5, 5, 5],
          lines = [Running_script, An_error_occurred ''test-notebook.py'' 1,
                   Running_script, An_error_occurred ''test-notebook.py'' 1,
                   Running_script, An_error_occurred ''test-notebook.py'' 1]\<rparr>"
    by (simp add: numeral_3_eq_3 iteration_def always_failing_def retry_start_def)
  ultimately show ?thesis by simp
qed

section \<open>Properties of the upload\<close>

text \<open>
  C10 (as amended). When the client can be created and \<^verbatim>\<open>upload_file\<close> raises nothing
  outside the class \<^verbatim>\<open>Exception\<close>, no exception reaches the caller. Any exception of the
  existence check, whatever its kind, is swallowed without being printed and is followed
  by an upload attempt; the only line printed is then the upload's success message or the
  message of the upload's own exception.
\<close>

theorem upload_swallows_errors:
  assumes "client env = None"
    and "\<And>m. upload_file env f b k \<noteq> Some (BaseException m)"
  shows "fst (upload_file_to_s3_if_not_exists env f b k s) = None \<and>
         (head_object env b k \<noteq> None \<longrightarrow>
            calls (snd (upload_file_to_s3_if_not_exists env f b k s)) =
              calls s @ [HeadObject b k, UploadFile f b k] \<and>
            printed (snd (upload_file_to_s3_if_not_exists env f b k s)) =
              printed s @ [case upload_file env f b k of
                             None \<Rightarrow> uploaded_msg k b
                           | Some e \<Rightarrow> exc_message e])"
  using assms
  by (auto simp: upload_file_to_s3_if_not_exists_def Let_def split: option.splits pyexc.splits)

theorem upload_swallows_errors_witness:
  "fst (upload_file_to_s3_if_not_exists forbidden_head ''zall.fits'' ''desi'' ''cfs/zall.fits''
          upload_start) = None \<and>
   calls (snd (upload_file_to_s3_if_not_exists forbidden_head ''zall.fits'' ''desi''
          ''cfs/zall.fits'' upload_start)) =
     [HeadObject ''desi'' ''cfs/zall.fits'', UploadFile ''zall.fits'' ''desi'' ''cfs/zall.fits'']"
proof -
  have h1: "client forbidden_head = None" by (simp add: forbidden_head_def)
  have h2: "\<And>m. upload_file forbidden_head ''zall.fits'' ''desi'' ''cfs/zall.fits''
              \<noteq> Some (BaseException m)"
    by (simp add: forbidden_head_def)
  have h3: "head_object forbidden_head ''desi'' ''cfs/zall.fits'' \<noteq> None"
    by (simp add: forbidden_head_def)
  from upload_swallows_errors [OF h1 h2, of upload_start] h3
  show ?thesis by (simp add: upload_start_def)
qed

text \<open>
  C10, the claim as stated, fails: a failed existence check is caught but not printed.
  With a store that answers the check with an error and accepts the upload, the only
  line printed reports success.
\<close>

theorem upload_failure_printed_counterexample:
  "upload_file_to_s3_if_not_exists forbidden_head ''zall.fits'' ''desi'' ''cfs/zall.fits''
     upload_start =
   (None,
    \<lparr>calls = [HeadObject ''desi'' ''cfs/zall.fits'',
              UploadFile ''zall.fits'' ''desi'' ''cfs/zall.fits''],
     printed = [''File uploaded to cfs/zall.fits in bucket desi.'']\<rparr>)"
  by (simp add: upload_file_to_s3_if_not_exists_def forbidden_head_def upload_start_def
      uploaded_msg_def)

section \<open>Properties of the cache\<close>

subsection \<open>The write loop and path lookup\<close>

lemma write_chunks_upd:
  "write_chunks (fs(l \<mapsto> File bs)) l st =
     (if complete st then None else Some ChunkedEncodingError, fs(l \<mapsto> File (bs @ received st)))"
  by (induction st arbitrary: bs) (simp_all add: file_write_def)

lemma walk_Cons_Inr:
  "walk fs cur (c # cs) = Inr l \<Longrightarrow> fs cur = Some Dir \<and> walk fs (step cur c) cs = Inr l"
  by (simp split: option.splits node.splits)

lemma walk_upd:
  "walk fs cur cs = Inr l \<Longrightarrow> fs l \<noteq> Some Dir \<Longrightarrow> walk (fs(l \<mapsto> v)) cur cs = Inr l"
proof (induction cs arbitrary: cur)
  case Nil
  then show ?case by simp
next
  case (Cons c cs)
  from walk_Cons_Inr [OF Cons.prems(1)]
  have d: "fs cur = Some Dir" and w: "walk fs (step cur c) cs = Inr l" by simp_all
  from d Cons.prems(2) have "cur \<noteq> l" by auto
  with d Cons.IH [OF w Cons.prems(2)] show ?case by simp
qed

lemma namei_upd:
  "namei fs cwd p = Inr l \<Longrightarrow> fs l \<noteq> Some Dir \<Longrightarrow> namei (fs(l \<mapsto> v)) cwd p = Inr l"
  by (auto simp: namei_def walk_upd split: if_splits)

lemma exists_after_write:
  "namei fs1 cwd p = Inr l \<Longrightarrow> fs1 l \<noteq> Some Dir \<Longrightarrow> path_exists (fs1(l \<mapsto> File bs)) cwd p"
  using namei_upd [of fs1 cwd p l "File bs"] by (simp add: path_exists_def)

lemma walk_error: "walk fs cur cs = Inl e \<Longrightarrow> e = NotADirectoryError \<or> e = FileNotFoundError"
  by (induction cs arbitrary: cur) (auto split: option.splits node.splits)

lemma namei_error: "namei fs cwd p = Inl e \<Longrightarrow> e = NotADirectoryError \<or> e = FileNotFoundError"
  by (auto simp: namei_def dest: walk_error split: if_splits)

lemma makedirs_from_error:
  "makedirs_from fs cur cs = (Some e, fs') \<Longrightarrow> e = NotADirectoryError \<or> e = FileExistsError"
  by (induction cs arbitrary: fs cur) (auto split: option.splits node.splits if_splits)

lemma makedirs_error:
  "makedirs fs cwd p = (Some e, fs') \<Longrightarrow>
   e = NotADirectoryError \<or> e = FileExistsError \<or> e = FileNotFoundError"
  by (auto simp: makedirs_def dest: makedirs_from_error split: if_splits option.splits node.splits)

lemma open_wb_Inr:
  "open_wb fs cwd p = Inr (l, fs') \<Longrightarrow>
   namei fs cwd p = Inr l \<and> fs l \<noteq> Some Dir \<and> fs' = fs(l \<mapsto> File [])"
  by (auto simp: open_wb_def split: sum.splits option.splits node.splits)

lemma open_wb_error:
  "open_wb fs cwd p = Inl e \<Longrightarrow>
   e = NotADirectoryError \<or> e = FileNotFoundError \<or> e = IsADirectoryError"
  by (auto simp: open_wb_def dest: namei_error split: sum.splits option.splits node.splits)

subsection \<open>The two branches of fetch\_s3\_file\<close>

lemma fetch_hit:
  "path_exists (files w) cwd (path_join CACHE_DIR key) \<Longrightarrow>
   fetch_s3_file remote cwd b key w =
     (Inr (path_join CACHE_DIR key), w\<lparr>stdout := stdout w @ [found_msg key]\<rparr>)"
  by (simp add: fetch_s3_file_def)

lemma fetch_miss:
  "\<not> path_exists (files w) cwd (path_join CACHE_DIR key) \<Longrightarrow>
   fetch_s3_file remote cwd b key w =
     (case remote (s3_url b key) of
        Inl e \<Rightarrow> (Inl e, w\<lparr>requests := requests w @ [s3_url b key]\<rparr>)
      | Inr resp \<Rightarrow>
          if 400 \<le> status_code resp \<and> status_code resp < 600
          then (Inl (HTTPError (status_code resp)), w\<lparr>requests := requests w @ [s3_url b key]\<rparr>)
          else download resp cwd key (path_join CACHE_DIR key)
                 (w\<lparr>requests := requests w @ [s3_url b key]\<rparr>))"
  by (simp add: fetch_s3_file_def Let_def)

lemma download_Inr:
  assumes "download resp cwd key p w = (Inr q, w')"
  shows "q = p \<and> complete (body resp) \<and> requests w' = requests w \<and>
         stdout w' = stdout w @ [fetched_msg key] \<and>
         (\<exists>fs1 l. makedirs (files w) cwd (dirname p) = (None, fs1) \<and>
                  namei fs1 cwd p = Inr l \<and> fs1 l \<noteq> Some Dir \<and>
                  files w' = fs1(l \<mapsto> File (received (body resp))))"
proof -
  obtain e1 fs1 where m: "makedirs (files w) cwd (dirname p) = (e1, fs1)"
    by (cases "makedirs (files w) cwd (dirname p)")
  with assms have e1: "e1 = None" by (cases e1) (auto simp: download_def)
  from assms m e1 obtain l fs2 where o: "open_wb fs1 cwd p = Inr (l, fs2)"
    by (cases "open_wb fs1 cwd p") (auto simp: download_def)
  from open_wb_Inr [OF o]
  have n: "namei fs1 cwd p = Inr l" "fs1 l \<noteq> Some Dir" "fs2 = fs1(l \<mapsto> File [])"
    by auto
  from write_chunks_upd [of fs1 l "[]" "body resp"] n(3)
  have wc: "write_chunks fs2 l (body resp) =
     (if complete (body resp) then None else Some ChunkedEncodingError,
      fs1(l \<mapsto> File (received (body resp))))"
    by simp
  from assms m e1 o wc have c: "complete (body resp)"
    by (auto simp: download_def split: if_splits)
  from assms m e1 o wc c n show ?thesis
    by (auto simp: download_def)
qed

lemma download_chunked:
  assumes "download resp cwd key p w = (Inl ChunkedEncodingError, w')"
  shows "\<not> complete (body resp) \<and> requests w' = requests w \<and> stdout w' = stdout w \<and>
         (\<exists>fs1 l. makedirs (files w) cwd (dirname p) = (None, fs1) \<and>
                  namei fs1 cwd p = Inr l \<and> fs1 l \<noteq> Some Dir \<and>
                  files w' = fs1(l \<mapsto> File (received (body resp))))"
proof -
  obtain e1 fs1 where m: "makedirs (files w) cwd (dirname p) = (e1, fs1)"
    by (cases "makedirs (files w) cwd (dirname p)")
  have e1: "e1 = None"
  proof (cases e1)
    case (Some e)
    with assms m have "e = ChunkedEncodingError" by (simp add: download_def)
    with makedirs_error [of "files w" cwd "dirname p" e fs1] m Some show ?thesis by simp
  qed simp
  obtain l fs2 where o: "open_wb fs1 cwd p = Inr (l, fs2)"
  proof (cases "open_wb fs1 cwd p")
    case (Inl e)
    with assms m e1 have "e = ChunkedEncodingError" by (simp add: download_def)
    with open_wb_error [OF Inl] show ?thesis by simp
  next
    case (Inr r)
    with that show ?thesis by (cases r) simp
  qed
  from open_wb_Inr [OF o]
  have n: "namei fs1 cwd p = Inr l" "fs1 l \<noteq> Some Dir" "fs2 = fs1(l \<mapsto> File [])"
    by auto
  from write_chunks_upd [of fs1 l "[]" "body resp"] n(3)
  have wc: "write_chunks fs2 l (body resp) =
     (if complete (body resp) then None else Some ChunkedEncodingError,
      fs1(l \<mapsto> File (received (body resp))))"
    by simp
  from assms m e1 o wc have c: "\<not> complete (body resp)"
    by (auto simp: download_def split: if_splits)
  from assms m e1 o wc c n show ?thesis
    by (auto simp: download_def)
qed

lemma download_requests: "requests (snd (download resp cwd key p w)) = requests w"
  by (auto simp: download_def split: prod.splits option.splits sum.splits)

lemma fetch_requests:
  "requests (snd (fetch_s3_file remote cwd b key w)) =
     requests w @ (if path_exists (files w) cwd (path_join CACHE_DIR key) then [] else [s3_url b key])"
  by (auto simp: fetch_s3_file_def Let_def download_requests split: sum.splits)

lemma fetch_miss_Inr:
  assumes "\<not> path_exists (files w) cwd (path_join CACHE_DIR key)"
    and "fetch_s3_file remote cwd b key w = (Inr p, w1)"
  shows "\<exists>resp. remote (s3_url b key) = Inr resp \<and>
           download resp cwd key (path_join CACHE_DIR key)
             (w\<lparr>requests := requests w @ [s3_url b key]\<rparr>) = (Inr p, w1)"
  using assms by (auto simp: fetch_miss split: sum.splits if_splits)

lemma fetch_Inr:
  assumes "fetch_s3_file remote cwd b key w = (Inr p, w1)"
  shows "p = path_join CACHE_DIR key \<and> path_exists (files w1) cwd p \<and>
         requests w1 =
           requests w @ (if path_exists (files w) cwd (path_join CACHE_DIR key) then [] else [s3_url b key])"
proof (cases "path_exists (files w) cwd (path_join CACHE_DIR key)")
  case True
  with assms show ?thesis by (auto simp: fetch_hit)
next
  case False
  from fetch_miss_Inr [OF False assms] obtain resp where
    d: "download resp cwd key (path_join CACHE_DIR key)
          (w\<lparr>requests := requests w @ [s3_url b key]\<rparr>) = (Inr p, w1)"
    by blast
  from download_Inr [OF d] exists_after_write False show ?thesis by auto
qed

subsection \<open>Evaluation on the concrete states\<close>

lemmas eval_defs = fetch_s3_file_def download_def path_exists_def namei_def start_def
  makedirs_def open_wb_def dirname_def path_join_def CACHE_DIR_def step_def s3_url_def
  serves_def world0_def disk0_def home_def broken_abcd_def object_abcd_def object_zz_def
  not_found_def file_write_def found_msg_def fetched_msg_def Let_def world_partial_def
  world_cached_def world_fetched_def

lemma fetch_world0_complete:
  "fetch_s3_file (serves (s3_url ''bkt'' ''a/b'') object_abcd) home ''bkt'' ''a/b'' world0 =
     (Inr ''cache/a/b'', world_fetched)"
  by (simp add: eval_defs)

lemma fetch_world0_broken:
  "fetch_s3_file (serves (s3_url ''bkt'' ''a/b'') broken_abcd) home ''bkt'' ''a/b'' world0 =
     (Inl ChunkedEncodingError, world_partial)"
  by (simp add: eval_defs)

lemma exists_world_cached: "path_exists (files world_cached) home (path_join CACHE_DIR ''a/b'')"
  by (simp add: eval_defs)

lemma not_exists_world0: "\<not> path_exists (files world0) home (path_join CACHE_DIR ''a/b'')"
  by (simp add: eval_defs)

subsection \<open>C1: the fast path\<close>

text \<open>
  C1 (as amended). Whenever something exists at the local path of the key, file or
  directory and whatever its contents, fetch\_s3\_file returns that path at once: no
  network request is made, the file system is left as it is, and only the "found in
  cache" line is printed. Nothing about the entry is checked; existence is the only
  condition.
\<close>

theorem fast_path_returns_unchecked:
  "path_exists (files w) cwd (path_join CACHE_DIR key) \<Longrightarrow>
   fetch_s3_file remote cwd b key w =
     (Inr (path_join CACHE_DIR key), w\<lparr>stdout := stdout w @ [found_msg key]\<rparr>)"
  by (simp add: fetch_s3_file_def)

theorem fast_path_returns_unchecked_witness:
  "path_exists (files world_cached) home (path_join CACHE_DIR ''a/b'') \<and>
   fetch_s3_file (serves (s3_url ''bkt'' ''a/b'') object_abcd) home ''bkt'' ''a/b'' world_cached =
     (Inr ''cache/a/b'',
      world_cached\<lparr>stdout := [''File a/b found in cache. No need to fetch again!'']\<rparr>)"
  using fast_path_returns_unchecked [OF exists_world_cached,
      of "serves (s3_url ''bkt'' ''a/b'') object_abcd" "''bkt''"] exists_world_cached
  by (simp add: path_join_def CACHE_DIR_def found_msg_def world_cached_def)

text \<open>
  C1, the claim as stated, fails in its second half: the return does not require the
  entry to pass an integrity check. In the state left by the broken transfer the entry
  of \<open>a/b\<close> holds 2 bytes while the size recorded from the response is 4; the next call
  returns its path from the cache all the same, with no request.
\<close>

theorem fast_path_integrity_counterexample:
  "fetch_s3_file (serves (s3_url ''bkt'' ''a/b'') object_abcd) home ''bkt'' ''a/b'' world_partial =
     (Inr ''cache/a/b'',
      world_partial\<lparr>stdout := [''File a/b found in cache. No need to fetch again!'']\<rparr>) \<and>
   namei (files world_partial) home ''cache/a/b'' = Inr [''home'', ''cache'', ''a'', ''b''] \<and>
   files world_partial [''home'', ''cache'', ''a'', ''b''] = Some (File ''ab'') \<and>
   \<not> spec_integrity_check broken_abcd (File ''ab'')"
  by (simp add: eval_defs spec_integrity_check_def)

subsection \<open>C2: idempotence\<close>

text \<open>
  C2. For a key with nothing at its local path before the first call: when the first
  call succeeds, the second call in sequence, whatever the remote store does by then,
  returns the same local path, and the two calls together make exactly one network
  request, the one of the first call.
\<close>

theorem idempotence_one_fetch:
  assumes "\<not> path_exists (files w) cwd (path_join CACHE_DIR key)"
    and "fetch_s3_file remote cwd b key w = (Inr p, w1)"
    and "fetch_s3_file remote2 cwd b key w1 = (r2, w2)"
  shows "p = path_join CACHE_DIR key \<and> r2 = Inr p \<and>
         requests w1 = requests w @ [s3_url b key] \<and>
         requests w2 = requests w @ [s3_url b key] \<and>
         length (requests w2) = length (requests w) + 1"
proof -
  from fetch_Inr [OF assms(2)] assms(1) have
    p: "p = path_join CACHE_DIR key" and
    e: "path_exists (files w1) cwd (path_join CACHE_DIR key)" and
    r: "requests w1 = requests w @ [s3_url b key]"
    by auto
  from fetch_hit [OF e, of remote2 b] assms(3) p r show ?thesis by auto
qed

theorem idempotence_one_fetch_witness:
  "\<not> path_exists (files world0) home (path_join CACHE_DIR ''a/b'') \<and>
   fetch_s3_file (serves (s3_url ''bkt'' ''a/b'') object_abcd) home ''bkt'' ''a/b'' world0 =
     (Inr ''cache/a/b'', world_fetched) \<and>
   fetch_s3_file (serves (s3_url ''bkt'' ''a/b'') not_found) home ''bkt'' ''a/b'' world_fetched =
     (Inr ''cache/a/b'',
      world_fetched\<lparr>stdout := stdout world_fetched @ [found_msg ''a/b'']\<rparr>) \<and>
   requests (world_fetched\<lparr>stdout := stdout world_fetched @ [found_msg ''a/b'']\<rparr>) =
     requests world0 @ [s3_url ''bkt'' ''a/b''] \<and>
   length (requests (world_fetched\<lparr>stdout := stdout world_fetched @ [found_msg ''a/b'']\<rparr>)) =
     length (requests world0) + 1"
proof -
  have e: "path_exists (files world_fetched) home (path_join CACHE_DIR ''a/b'')"
    by (simp add: eval_defs)
  have j: "path_join CACHE_DIR ''a/b'' = ''cache/a/b''" by (simp add: path_join_def CACHE_DIR_def)
  have s: "fetch_s3_file (serves (s3_url ''bkt'' ''a/b'') not_found) home ''bkt'' ''a/b'' world_fetched =
     (Inr ''cache/a/b'', world_fetched\<lparr>stdout := stdout world_fetched @ [found_msg ''a/b'']\<rparr>)"
    using fetch_hit [OF e, of "serves (s3_url ''bkt'' ''a/b'') not_found" "''bkt''"] j by simp
  from idempotence_one_fetch [OF not_exists_world0 fetch_world0_complete s]
    not_exists_world0 fetch_world0_complete s
  show ?thesis by simp
qed


subsection \<open>C3: partial downloads\<close>

lemma download_incomplete:
  assumes m: "makedirs (files w) cwd (dirname p) = (None, fs1)"
    and o: "open_wb fs1 cwd p = Inr (l, fs2)"
    and c: "\<not> complete (body resp)"
  shows "download resp cwd key p w =
           (Inl ChunkedEncodingError, w\<lparr>files := fs1(l \<mapsto> File (received (body resp)))\<rparr>)"
proof -
  from open_wb_Inr [OF o] have n: "fs2 = fs1(l \<mapsto> File [])" by simp
  from write_chunks_upd [of fs1 l "[]" "body resp"] n c
  have wc: "write_chunks fs2 l (body resp) =
     (Some ChunkedEncodingError, fs1(l \<mapsto> File (received (body resp))))"
    by simp
  from m o wc show ?thesis by (simp add: download_def)
qed

text \<open>
  C3 (as amended). The bytes are written straight to the final path as they arrive;
  there is no temporary file and no rename. For a key with nothing at its local path,
  when the response arrives with a status outside 400 to 599, the directories can be made
  and the final path opened, and the remote read then fails partway, the call returns
  the transport error and the final path holds a file with exactly the chunks that were
  delivered before the failure; a following call for the key returns that path from the
  cache without any network request.
\<close>

theorem partial_download_stays:
  assumes miss: "\<not> path_exists (files w) cwd (path_join CACHE_DIR key)"
    and resp: "remote (s3_url b key) = Inr resp"
    and status: "\<not> (400 \<le> status_code resp \<and> status_code resp < 600)"
    and dirs: "makedirs (files w) cwd (dirname (path_join CACHE_DIR key)) = (None, fs1)"
    and opened: "open_wb fs1 cwd (path_join CACHE_DIR key) = Inr (l, fs2)"
    and broken: "\<not> complete (body resp)"
  shows "fetch_s3_file remote cwd b key w =
           (Inl ChunkedEncodingError,
            w\<lparr>requests := requests w @ [s3_url b key],
              files := fs1(l \<mapsto> File (received (body resp)))\<rparr>) \<and>
         namei (fs1(l \<mapsto> File (received (body resp)))) cwd (path_join CACHE_DIR key) = Inr l \<and>
         fetch_s3_file remote_next cwd b key
             (w\<lparr>requests := requests w @ [s3_url b key],
               files := fs1(l \<mapsto> File (received (body resp)))\<rparr>) =
           (Inr (path_join CACHE_DIR key),
            w\<lparr>requests := requests w @ [s3_url b key],
              files := fs1(l \<mapsto> File (received (body resp))),
              stdout := stdout w @ [found_msg key]\<rparr>)"
proof -
  define w0 where "w0 = w\<lparr>requests := requests w @ [s3_url b key]\<rparr>"
  have fw: "files w0 = files w" by (simp add: w0_def)
  from dirs fw have m: "makedirs (files w0) cwd (dirname (path_join CACHE_DIR key)) = (None, fs1)"
    by simp
  from download_incomplete [OF m opened broken, of key]
  have d: "download resp cwd key (path_join CACHE_DIR key) w0 =
             (Inl ChunkedEncodingError, w0\<lparr>files := fs1(l \<mapsto> File (received (body resp)))\<rparr>)" .
  from miss resp status d have first: "fetch_s3_file remote cwd b key w =
           (Inl ChunkedEncodingError,
            w\<lparr>requests := requests w @ [s3_url b key],
              files := fs1(l \<mapsto> File (received (body resp)))\<rparr>)"
    by (simp add: fetch_miss w0_def)
  from open_wb_Inr [OF opened]
  have n: "namei fs1 cwd (path_join CACHE_DIR key) = Inr l" "fs1 l \<noteq> Some Dir" by simp_all
  from namei_upd [OF n]
  have at: "namei (fs1(l \<mapsto> File (received (body resp)))) cwd (path_join CACHE_DIR key) = Inr l" .
  from exists_after_write [OF n]
  have "path_exists (fs1(l \<mapsto> File (received (body resp)))) cwd (path_join CACHE_DIR key)" .
  then have e: "path_exists
      (files (w\<lparr>requests := requests w @ [s3_url b key],
                 files := fs1(l \<mapsto> File (received (body resp)))\<rparr>))
      cwd (path_join CACHE_DIR key)" by simp
  from fetch_hit [OF e, of remote_next b] first at show ?thesis by simp
qed

theorem partial_download_stays_witness:
  "\<not> path_exists (files world0) home (path_join CACHE_DIR ''a/b'') \<and>
   serves (s3_url ''bkt'' ''a/b'') broken_abcd (s3_url ''bkt'' ''a/b'') = Inr broken_abcd \<and>
   \<not> (400 \<le> status_code broken_abcd \<and> status_code broken_abcd < 600) \<and>
   makedirs (files world0) home (dirname (path_join CACHE_DIR ''a/b'')) =
     (None, disk0([''home'', ''cache''] \<mapsto> Dir, [''home'', ''cache'', ''a''] \<mapsto> Dir)) \<and>
   open_wb (disk0([''home'', ''cache''] \<mapsto> Dir, [''home'', ''cache'', ''a''] \<mapsto> Dir)) home
       (path_join CACHE_DIR ''a/b'') =
     Inr ([''home'', ''cache'', ''a'', ''b''],
          disk0([''home'', ''cache''] \<mapsto> Dir, [''home'', ''cache'', ''a''] \<mapsto> Dir,
                [''home'', ''cache'', ''a'', ''b''] \<mapsto> File [])) \<and>
   \<not> complete (body broken_abcd) \<and>
   fetch_s3_file (serves (s3_url ''bkt'' ''a/b'') broken_abcd) home ''bkt'' ''a/b'' world0 =
     (Inl ChunkedEncodingError, world_partial) \<and>
   namei (files world_partial) home ''cache/a/b'' = Inr [''home'', ''cache'', ''a'', ''b''] \<and>
   files world_partial [''home'', ''cache'', ''a'', ''b''] = Some (File ''ab'') \<and>
   fetch_s3_file (serves (s3_url ''bkt'' ''a/b'') object_abcd) home ''bkt'' ''a/b'' world_partial =
     (Inr ''cache/a/b'',
      world_partial\<lparr>stdout := [''File a/b found in cache. No need to fetch again!'']\<rparr>)"
proof -
  have r: "serves (s3_url ''bkt'' ''a/b'') broken_abcd (s3_url ''bkt'' ''a/b'') = Inr broken_abcd"
    by (simp add: serves_def)
  have st: "\<not> (400 \<le> status_code broken_abcd \<and> status_code broken_abcd < 600)"
    by (simp add: broken_abcd_def)
  have m: "makedirs (files world0) home (dirname (path_join CACHE_DIR ''a/b'')) =
     (None, disk0([''home'', ''cache''] \<mapsto> Dir, [''home'', ''cache'', ''a''] \<mapsto> Dir))"
    by (simp add: eval_defs)
  have o: "open_wb (disk0([''home'', ''cache''] \<mapsto> Dir, [''home'', ''cache'', ''a''] \<mapsto> Dir)) home
       (path_join CACHE_DIR ''a/b'') =
     Inr ([''home'', ''cache'', ''a'', ''b''],
          disk0([''home'', ''cache''] \<mapsto> Dir, [''home'', ''cache'', ''a''] \<mapsto> Dir,
                [''home'', ''cache'', ''a'', ''b''] \<mapsto> File []))"
    by (simp add: eval_defs)
  have c: "\<not> complete (body broken_abcd)" by (simp add: broken_abcd_def)
  have wp: "world0\<lparr>requests := requests world0 @ [s3_url ''bkt'' ''a/b''],
                   files := (disk0([''home'', ''cache''] \<mapsto> Dir, [''home'', ''cache'', ''a''] \<mapsto> Dir))
                     ([''home'', ''cache'', ''a'', ''b''] \<mapsto> File (received (body broken_abcd)))\<rparr> =
            world_partial"
    by (simp add: world0_def world_partial_def s3_url_def broken_abcd_def)
  have j: "path_join CACHE_DIR ''a/b'' = ''cache/a/b''" by (simp add: path_join_def CACHE_DIR_def)
  have f: "files world_partial [''home'', ''cache'', ''a'', ''b''] = Some (File ''ab'')"
    by (simp add: world_partial_def)
  have sw: "stdout world0 = []" by (simp add: world0_def)
  have rb: "received (body broken_abcd) = ''ab''" by (simp add: broken_abcd_def)
  from partial_download_stays [where remote = "serves (s3_url ''bkt'' ''a/b'') broken_abcd"
      and b = "''bkt''" and key = "''a/b''" and w = world0 and cwd = home and resp = broken_abcd
      and remote_next = "serves (s3_url ''bkt'' ''a/b'') object_abcd",
      OF not_exists_world0 r st m o c]
  have "fetch_s3_file (serves (s3_url ''bkt'' ''a/b'') broken_abcd) home ''bkt'' ''a/b'' world0 =
          (Inl ChunkedEncodingError, world_partial) \<and>
        namei (files world_partial) home ''cache/a/b'' = Inr [''home'', ''cache'', ''a'', ''b''] \<and>
        fetch_s3_file (serves (s3_url ''bkt'' ''a/b'') object_abcd) home ''bkt'' ''a/b'' world_partial =
          (Inr ''cache/a/b'',
           world_partial\<lparr>stdout := [''File a/b found in cache. No need to fetch again!'']\<rparr>)"
    unfolding wp j by (simp add: world_partial_def found_msg_def sw rb)
  with not_exists_world0 r st m o c f show ?thesis by simp
qed


text \<open>
  C3, the claim as stated, fails: when the transfer of the 4-byte object breaks after 2
  bytes, the call returns the error and a file with those 2 bytes exists at the final
  path.
\<close>

theorem no_partial_artifacts_counterexample:
  "fetch_s3_file (serves (s3_url ''bkt'' ''a/b'') broken_abcd) home ''bkt'' ''a/b'' world0 =
     (Inl ChunkedEncodingError, world_partial) \<and>
   path_exists (files world_partial) home ''cache/a/b'' \<and>
   files world_partial [''home'', ''cache'', ''a'', ''b''] = Some (File ''ab'')"
  by (simp add: eval_defs)

subsection \<open>C4: key validation\<close>

text \<open>
  C4 (as amended). fetch\_s3\_file does not validate the key and never rejects one for
  its shape. For every key, also an empty one, one with a \<open>..\<close> segment or an absolute
  one, the key is joined to the cache directory as it is: when the resulting path exists
  the call returns it, and when it does not the call requests the URL made from the
  bucket and the key as it is.
\<close>

theorem no_key_validation:
  "(path_exists (files w) cwd (path_join CACHE_DIR key) \<longrightarrow>
      fetch_s3_file remote cwd b key w =
        (Inr (path_join CACHE_DIR key), w\<lparr>stdout := stdout w @ [found_msg key]\<rparr>)) \<and>
   (\<not> path_exists (files w) cwd (path_join CACHE_DIR key) \<longrightarrow>
      requests (snd (fetch_s3_file remote cwd b key w)) = requests w @ [s3_url b key])"
  by (simp add: fetch_hit fetch_requests)

theorem no_key_validation_witness:
  "spec_invalid_key ''../etc/passwd'' \<and>
   \<not> path_exists (files world0) home (path_join CACHE_DIR ''../etc/passwd'') \<and>
   requests (snd (fetch_s3_file (serves (s3_url ''bkt'' ''../etc/passwd'') object_abcd) home
                   ''bkt'' ''../etc/passwd'' world0)) =
     requests world0 @ [s3_url ''bkt'' ''../etc/passwd'']"
proof -
  have i: "spec_invalid_key ''../etc/passwd''" by (simp add: spec_invalid_key_def)
  have n: "\<not> path_exists (files world0) home (path_join CACHE_DIR ''../etc/passwd'')"
    by (simp add: eval_defs)
  from no_key_validation [of world0 home "''../etc/passwd''"
      "serves (s3_url ''bkt'' ''../etc/passwd'') object_abcd" "''bkt''"] i n
  show ?thesis by simp
qed

text \<open>
  C4, the claim as stated, fails: the key \<open>../etc/passwd\<close> is not rejected. The call
  makes the network request, writes the object to \<open>etc/passwd\<close> beside the cache
  directory, and returns successfully.
\<close>

theorem invalid_key_rejected_counterexample:
  "spec_invalid_key ''../etc/passwd'' \<and>
   fetch_s3_file (serves (s3_url ''bkt'' ''../etc/passwd'') object_abcd) home ''bkt''
       ''../etc/passwd'' world0 =
     (Inr ''cache/../etc/passwd'',
      \<lparr>files = disk0([''home'', ''cache''] \<mapsto> Dir, [''home'', ''etc''] \<mapsto> Dir,
                     [''home'', ''etc'', ''passwd''] \<mapsto> File ''abcd''),
       requests = [''https://bkt.s3.amazonaws.com/../etc/passwd''],
       stdout = [''File ../etc/passwd fetched from S3 and saved to cache.'']\<rparr>)"
  by (simp add: eval_defs spec_invalid_key_def)

subsection \<open>C6: what a successful call returns\<close>




subsection \<open>C8: namespace isolation\<close>

lemma components_not_Nil: "components p \<noteq> []"
  by (cases p) (auto split: list.splits)

lemma components_inj: "components p = components q \<Longrightarrow> p = q"
proof (induction p arbitrary: q)
  case Nil
  then show ?case
    using components_not_Nil [of "tl q"] by (cases q) (auto split: if_splits list.splits)
next
  case (Cons c cs)
  show ?case
  proof (cases q)
    case Nil
    with Cons.prems show ?thesis
      using components_not_Nil [of cs] by (auto split: if_splits list.splits)
  next
    case (Cons d ds)
    with Cons.prems Cons.IH [of ds] show ?thesis
      using components_not_Nil [of cs] components_not_Nil [of ds]
      by (auto split: if_splits list.splits)
  qed
qed

lemma components_append:
  "components (xs @ CHR ''/'' # ys) = components xs @ components ys"
  by (induction xs) (auto split: list.splits simp: components_not_Nil)

lemma components_local_path:
  "take 1 key \<noteq> ''/'' \<Longrightarrow> components (path_join CACHE_DIR key) = ''cache'' # components key"
  using components_append [of "''cache''" key] by (simp add: path_join_def CACHE_DIR_def)

lemma walk_plain:
  "list_all (\<lambda>c. c \<noteq> [] \<and> c \<noteq> ''.'' \<and> c \<noteq> ''..'') cs \<Longrightarrow> walk fs cur cs = Inr l \<Longrightarrow> l = cur @ cs"
proof (induction cs arbitrary: cur)
  case Nil
  then show ?case by simp
next
  case (Cons c cs)
  from Cons.prems have c: "step cur c = cur @ [c]" by (simp add: step_def)
  from walk_Cons_Inr [OF Cons.prems(2)] have "walk fs (step cur c) cs = Inr l" by simp
  with Cons.IH [of "step cur c"] Cons.prems c show ?case by simp
qed

lemma plain_key_relative: "plain_key key \<Longrightarrow> take 1 key \<noteq> ''/''"
  by (cases key) (auto simp: plain_key_def)

lemma plain_key_location:
  assumes "plain_key key" and "namei fs cwd (path_join CACHE_DIR key) = Inr l"
  shows "l = cwd @ ''cache'' # components key"
proof -
  from plain_key_relative [OF assms(1)] have rel: "take 1 key \<noteq> ''/''" .
  then have lp: "path_join CACHE_DIR key = ''cache/'' @ key"
    by (simp add: path_join_def CACHE_DIR_def)
  from components_local_path [OF rel] assms(1)
  have pl: "list_all (\<lambda>c. c \<noteq> [] \<and> c \<noteq> ''.'' \<and> c \<noteq> ''..'') (components (path_join CACHE_DIR key))"
    by (simp add: plain_key_def)
  from assms(2) lp have "walk fs cwd (components (path_join CACHE_DIR key)) = Inr l"
    by (simp add: namei_def start_def)
  from walk_plain [OF pl this] components_local_path [OF rel] show ?thesis by simp
qed

lemma path_join_inj: "path_join CACHE_DIR k1 = path_join CACHE_DIR k2 \<Longrightarrow> k1 = k2"
  by (cases k1; cases k2) (auto simp: path_join_def CACHE_DIR_def split: if_splits)

lemma fetch_world_fetched_b2:
  "fetch_s3_file (serves (s3_url ''bkt'' ''a/b2'') object_zz) home ''bkt'' ''a/b2'' world_fetched =
     (Inr ''cache/a/b2'', world_fetched2)"
  by (simp add: eval_defs world_fetched2_def)

lemma fetch_Inr_location:
  assumes "fetch_s3_file remote cwd b key w = (Inr p, w1)"
  shows "\<exists>l. namei (files w1) cwd p = Inr l \<and> files w1 l \<noteq> None"
proof -
  from fetch_Inr [OF assms] have "path_exists (files w1) cwd p" by blast
  then show ?thesis by (cases "namei (files w1) cwd p") (simp_all add: path_exists_def)
qed

text \<open>
  C8 (as amended). Successful calls of fetch\_s3\_file for two different keys return
  different local path strings, and what each requests on a cache miss is the URL of
  its own key, the two URLs being different (the key is used verbatim in both). For two
  different plain keys (relative, with no empty, \<open>.\<close> or \<open>..\<close> segment), such as \<open>a/b\<close>
  and \<open>a/b2\<close>, the files found at the returned paths after the calls are different
  files.
\<close>

theorem namespace_isolation_plain_keys:
  assumes "ka \<noteq> kb"
    and "fetch_s3_file ra cwd b ka wa = (Inr pa, wa')"
    and "fetch_s3_file rb cwd b kb wb = (Inr pb, wb')"
  shows "pa \<noteq> pb \<and> s3_url b ka \<noteq> s3_url b kb \<and>
         requests wa' = requests wa @ (if path_exists (files wa) cwd pa then [] else [s3_url b ka]) \<and>
         requests wb' = requests wb @ (if path_exists (files wb) cwd pb then [] else [s3_url b kb]) \<and>
         (plain_key ka \<and> plain_key kb \<longrightarrow>
            (\<exists>la lb. namei (files wa') cwd pa = Inr la \<and> files wa' la \<noteq> None \<and>
                     namei (files wb') cwd pb = Inr lb \<and> files wb' lb \<noteq> None \<and> la \<noteq> lb))"
proof -
  from fetch_Inr [OF assms(2)] have
    pa: "pa = path_join CACHE_DIR ka" and
    qa: "requests wa' = requests wa @ (if path_exists (files wa) cwd pa then [] else [s3_url b ka])"
    by blast+
  from fetch_Inr [OF assms(3)] have
    pb: "pb = path_join CACHE_DIR kb" and
    qb: "requests wb' = requests wb @ (if path_exists (files wb) cwd pb then [] else [s3_url b kb])"
    by blast+
  have d: "pa \<noteq> pb" using assms(1) pa pb path_join_inj by blast
  have u: "s3_url b ka \<noteq> s3_url b kb" using assms(1) by (simp add: s3_url_def)
  have "\<exists>la lb. namei (files wa') cwd pa = Inr la \<and> files wa' la \<noteq> None \<and>
                 namei (files wb') cwd pb = Inr lb \<and> files wb' lb \<noteq> None \<and> la \<noteq> lb"
    if plain: "plain_key ka" "plain_key kb"
  proof -
    from fetch_Inr_location [OF assms(2)] obtain la where
      la: "namei (files wa') cwd pa = Inr la" "files wa' la \<noteq> None" by blast
    from fetch_Inr_location [OF assms(3)] obtain lb where
      lb: "namei (files wb') cwd pb = Inr lb" "files wb' lb \<noteq> None" by blast
    from la(1) pa have na: "namei (files wa') cwd (path_join CACHE_DIR ka) = Inr la" by simp
    from lb(1) pb have nb: "namei (files wb') cwd (path_join CACHE_DIR kb) = Inr lb" by simp
    have "la \<noteq> lb"
    proof
      assume "la = lb"
      with plain_key_location [OF plain(1) na] plain_key_location [OF plain(2) nb]
      have "components ka = components kb" by simp
      with components_inj assms(1) show False by blast
    qed
    with la lb show ?thesis by blast
  qed
  with d u qa qb show ?thesis by blast
qed

theorem namespace_isolation_plain_keys_witness:
  "''a/b'' \<noteq> ''a/b2'' \<and> plain_key ''a/b'' \<and> plain_key ''a/b2'' \<and>
   fetch_s3_file (serves (s3_url ''bkt'' ''a/b'') object_abcd) home ''bkt'' ''a/b'' world0 =
     (Inr ''cache/a/b'', world_fetched) \<and>
   fetch_s3_file (serves (s3_url ''bkt'' ''a/b2'') object_zz) home ''bkt'' ''a/b2'' world_fetched =
     (Inr ''cache/a/b2'', world_fetched2) \<and>
   ''cache/a/b'' \<noteq> ''cache/a/b2'' \<and>
   s3_url ''bkt'' ''a/b'' \<noteq> s3_url ''bkt'' ''a/b2'' \<and>
   (\<exists>la lb. namei (files world_fetched) home ''cache/a/b'' = Inr la \<and>
            files world_fetched la \<noteq> None \<and>
            namei (files world_fetched2) home ''cache/a/b2'' = Inr lb \<and>
            files world_fetched2 lb \<noteq> None \<and> la \<noteq> lb)"
proof -
  have d: "''a/b'' \<noteq> ''a/b2''" by simp
  have p: "plain_key ''a/b''" "plain_key ''a/b2''" by (simp_all add: plain_key_def)
  from namespace_isolation_plain_keys [OF d fetch_world0_complete fetch_world_fetched_b2]
    d p fetch_world0_complete fetch_world_fetched_b2
  show ?thesis by simp
qed


text \<open>
  C8, the claim as stated, fails for keys that are not plain: the different keys \<open>a/b\<close>
  and \<open>a//b\<close> have different URLs but resolve to the same file, so with \<open>a/b\<close> in the
  cache the call for \<open>a//b\<close> is answered from the entry of \<open>a/b\<close> without a request.
\<close>

theorem namespace_collision_counterexample:
  "''a/b'' \<noteq> ''a//b'' \<and>
   namei (files world_cached) home (path_join CACHE_DIR ''a/b'') =
     Inr [''home'', ''cache'', ''a'', ''b''] \<and>
   namei (files world_cached) home (path_join CACHE_DIR ''a//b'') =
     Inr [''home'', ''cache'', ''a'', ''b''] \<and>
   fetch_s3_file (serves (s3_url ''bkt'' ''a//b'') object_zz) home ''bkt'' ''a//b'' world_cached =
     (Inr ''cache/a//b'',
      world_cached\<lparr>stdout := [''File a//b found in cache. No need to fetch again!'']\<rparr>)"
  by (simp add: eval_defs)

subsection \<open>C9: what a call changes\<close>

lemma makedirs_from_extends:
  "fs l = Some n \<Longrightarrow> snd (makedirs_from fs cur cs) l = Some n"
proof (induction cs arbitrary: fs cur)
  case Nil
  then show ?case by simp
next
  case (Cons c cs)
  have same: "snd (makedirs_from fs (step cur c) cs) l = Some n"
    by (rule Cons.IH) (rule Cons.prems)
  show ?case
  proof (cases "fs (step cur c)")
    case None
    with Cons.prems have "l \<noteq> step cur c" by auto
    with Cons.prems have "(fs(step cur c \<mapsto> Dir)) l = Some n" by simp
    then have "snd (makedirs_from (fs(step cur c \<mapsto> Dir)) (step cur c) cs) l = Some n"
      by (rule Cons.IH)
    with None show ?thesis by simp
  next
    case (Some a)
    with same Cons.prems show ?thesis by (cases a) simp_all
  qed
qed


lemma makedirs_from_new:
  "snd (makedirs_from fs cur cs) l \<noteq> fs l \<Longrightarrow> fs l = None \<and> snd (makedirs_from fs cur cs) l = Some Dir"
proof (induction cs arbitrary: fs cur)
  case Nil
  then show ?case by simp
next
  case (Cons c cs)
  show ?case
  proof (cases "fs (step cur c)")
    case None
    show ?thesis
    proof (cases "l = step cur c")
      case True
      have "(fs(step cur c \<mapsto> Dir)) l = Some Dir" using True by simp
      then have "snd (makedirs_from (fs(step cur c \<mapsto> Dir)) (step cur c) cs) l = Some Dir"
        by (rule makedirs_from_extends)
      with None True show ?thesis by simp
    next
      case False
      then have eq: "(fs(step cur c \<mapsto> Dir)) l = fs l" by simp
      from Cons.prems None
      have "snd (makedirs_from (fs(step cur c \<mapsto> Dir)) (step cur c) cs) l \<noteq> fs l" by simp
      with eq have "snd (makedirs_from (fs(step cur c \<mapsto> Dir)) (step cur c) cs) l
                      \<noteq> (fs(step cur c \<mapsto> Dir)) l" by simp
      then have "(fs(step cur c \<mapsto> Dir)) l = None \<and>
                 snd (makedirs_from (fs(step cur c \<mapsto> Dir)) (step cur c) cs) l = Some Dir"
        by (rule Cons.IH)
      with eq None show ?thesis by simp
    qed
  next
    case (Some a)
    show ?thesis
    proof (cases a)
      case (File bs)
      with Some Cons.prems show ?thesis by simp
    next
      case Dir
      with Some Cons.prems have "snd (makedirs_from fs (step cur c) cs) l \<noteq> fs l" by simp
      then have "fs l = None \<and> snd (makedirs_from fs (step cur c) cs) l = Some Dir"
        by (rule Cons.IH)
      with Some Dir show ?thesis by simp
    qed
  qed
qed


lemma makedirs_extends: "fs l = Some n \<Longrightarrow> snd (makedirs fs cwd p) l = Some n"
  by (simp add: makedirs_def makedirs_from_extends split: option.splits node.splits)

lemma step_prefix: "c \<noteq> ''..'' \<Longrightarrow> prefix cur (step cur c)"
  by (simp add: step_def)

lemma walk_prefix: "''..'' \<notin> set cs \<Longrightarrow> walk fs cur cs = Inr l \<Longrightarrow> prefix cur l"
proof (induction cs arbitrary: cur)
  case Nil
  then show ?case by simp
next
  case (Cons c cs)
  from walk_Cons_Inr [OF Cons.prems(2)] have w: "walk fs (step cur c) cs = Inr l" by simp
  from Cons.prems(1) have nd: "''..'' \<notin> set cs" and c: "c \<noteq> ''..''" by auto
  from Cons.IH [OF nd w] have p2: "prefix (step cur c) l" .
  from c have p1: "prefix cur (step cur c)" by (rule step_prefix)
  from p1 p2 show ?case by (rule prefix_order.trans)
qed


lemma wf_fs_parent: "wf_fs fs \<Longrightarrow> fs (a @ [x]) \<noteq> None \<Longrightarrow> fs a = Some Dir"
proof -
  assume wf: "wf_fs fs" and ex: "fs (a @ [x]) \<noteq> None"
  from wf have "fs (a @ [x]) \<noteq> None \<longrightarrow> a @ [x] = [] \<or> fs (butlast (a @ [x])) = Some Dir"
    unfolding wf_fs_def by (rule spec)
  with ex show ?thesis by simp
qed

lemma wf_fs_prefix:
  assumes "wf_fs fs" and "fs a = None"
  shows "fs (a @ r) = None"
proof (induction r rule: rev_induct)
  case Nil
  from assms(2) show ?case by simp
next
  case (snoc x r)
  show ?case
  proof (rule ccontr)
    assume "fs (a @ r @ [x]) \<noteq> None"
    then have "fs ((a @ r) @ [x]) \<noteq> None" by simp
    from wf_fs_parent [OF assms(1) this] snoc.IH show False by simp
  qed
qed


lemma makedirs_cases:
  "makedirs fs cwd p = (e, fs') \<Longrightarrow>
   fs' = fs \<or> (p \<noteq> [] \<and> fs (start cwd p) = Some Dir \<and>
               makedirs_from fs (start cwd p) (components p) = (e, fs'))"
  by (cases "p = []"; cases "fs (start cwd p)")
     (auto simp: makedirs_def split: node.splits)

lemma makedirs_new:
  assumes "snd (makedirs fs cwd p) l \<noteq> fs l"
  shows "fs l = None \<and> snd (makedirs fs cwd p) l = Some Dir"
proof -
  obtain e fs' where m: "makedirs fs cwd p = (e, fs')" by (cases "makedirs fs cwd p")
  with assms have ne: "fs' l \<noteq> fs l" by simp
  with makedirs_cases [OF m]
  have mf: "makedirs_from fs (start cwd p) (components p) = (e, fs')" by auto
  with ne have "snd (makedirs_from fs (start cwd p) (components p)) l \<noteq> fs l" by simp
  from makedirs_from_new [OF this] mf m show ?thesis by simp
qed

lemma walk_fresh:
  assumes wf: "wf_fs fs" and ext: "\<And>l n. fs l = Some n \<Longrightarrow> fs1 l = Some n"
  shows "''..'' \<notin> set cs \<Longrightarrow> walk fs1 cur cs = Inr l \<Longrightarrow>
         (case walk fs cur cs of Inl e \<Rightarrow> True | Inr l' \<Rightarrow> fs l' = None) \<Longrightarrow> fs l = None"
proof (induction cs arbitrary: cur)
  case Nil
  then show ?case by simp
next
  case (Cons c cs)
  from walk_Cons_Inr [OF Cons.prems(2)]
  have d1: "fs1 cur = Some Dir" and w1: "walk fs1 (step cur c) cs = Inr l" by simp_all
  from Cons.prems(1) have nd: "''..'' \<notin> set cs" by simp
  show ?case
  proof (cases "fs cur")
    case None
    from walk_prefix [OF Cons.prems(1) Cons.prems(2)] have "prefix cur l" .
    then obtain r where "l = cur @ r" by (auto simp: prefix_def)
    with wf_fs_prefix [OF wf None, of r] show ?thesis by simp
  next
    case (Some a)
    with ext [of cur a] d1 have a: "a = Dir" by simp
    with Some Cons.prems(3)
    have "case walk fs (step cur c) cs of Inl e \<Rightarrow> True | Inr l' \<Rightarrow> fs l' = None"
      by simp
    from Cons.IH [OF nd w1 this] show ?thesis .
  qed
qed

lemma local_path_no_dotdot:
  "''..'' \<notin> set (components key) \<Longrightarrow> ''..'' \<notin> set (components (path_join CACHE_DIR key))"
proof (cases "take 1 key = ''/''")
  case True
  assume "''..'' \<notin> set (components key)"
  with True show ?thesis by (simp add: path_join_def)
next
  case False
  assume "''..'' \<notin> set (components key)"
  with components_local_path [OF False] show ?thesis by simp
qed

lemma components_snoc_slash: "components (y @ ''/'') = components y @ [[]]"
  using components_append [of y "[]"] by simp

lemma components_strip_subset:
  "set (components (rev (dropWhile (\<lambda>c. c = CHR ''/'') (rev x)))) \<subseteq> set (components x)"
proof (induction x rule: rev_induct)
  case Nil
  show ?case by simp
next
  case (snoc c x)
  show ?case
  proof (cases "c = CHR ''/''")
    case True
    then have "rev (dropWhile (\<lambda>c. c = CHR ''/'') (rev (x @ [c]))) =
               rev (dropWhile (\<lambda>c. c = CHR ''/'') (rev x))" by simp
    moreover from True have "components (x @ [c]) = components x @ [[]]"
      using components_snoc_slash [of x] by simp
    ultimately show ?thesis using snoc.IH by auto
  next
    case False
    then show ?thesis by simp
  qed
qed

lemma head_form:
  "rev (dropWhile (\<lambda>c. c \<noteq> CHR ''/'') (rev p)) = [] \<or>
   (\<exists>h b. rev (dropWhile (\<lambda>c. c \<noteq> CHR ''/'') (rev p)) = h @ ''/'' \<and> p = h @ CHR ''/'' # b)"
proof (cases "dropWhile (\<lambda>c. c \<noteq> CHR ''/'') (rev p)")
  case Nil
  then show ?thesis by simp
next
  case (Cons d t)
  from hd_dropWhile [of "\<lambda>c. c \<noteq> CHR ''/''" "rev p"] Cons have d: "d = CHR ''/''" by simp
  have "rev p = takeWhile (\<lambda>c. c \<noteq> CHR ''/'') (rev p) @ dropWhile (\<lambda>c. c \<noteq> CHR ''/'') (rev p)"
    by simp
  with Cons d have "rev p = takeWhile (\<lambda>c. c \<noteq> CHR ''/'') (rev p) @ CHR ''/'' # t" by simp
  then have "rev (rev p) = rev (takeWhile (\<lambda>c. c \<noteq> CHR ''/'') (rev p) @ CHR ''/'' # t)" by simp
  then have "p = rev t @ CHR ''/'' # rev (takeWhile (\<lambda>c. c \<noteq> CHR ''/'') (rev p))" by simp
  with Cons d show ?thesis by auto
qed

lemma components_head_subset:
  "set (components (rev (dropWhile (\<lambda>c. c \<noteq> CHR ''/'') (rev p)))) \<subseteq> insert [] (set (components p))"
proof -
  define hd where "hd = rev (dropWhile (\<lambda>c. c \<noteq> CHR ''/'') (rev p))"
  from head_form [of p]
  have "hd = [] \<or> (\<exists>h b. hd = h @ ''/'' \<and> p = h @ CHR ''/'' # b)"
    unfolding hd_def .
  then have "set (components hd) \<subseteq> insert [] (set (components p))"
  proof
    assume "hd = []"
    then show ?thesis by simp
  next
    assume "\<exists>h b. hd = h @ ''/'' \<and> p = h @ CHR ''/'' # b"
    then obtain h b where h: "hd = h @ ''/''" and p: "p = h @ CHR ''/'' # b" by blast
    from h have "components hd = components h @ [[]]"
      by (simp only: components_snoc_slash)
    moreover from p have "components p = components h @ components b"
      by (simp only: components_append)
    ultimately show ?thesis by auto
  qed
  then show ?thesis unfolding hd_def .
qed

lemma components_dirname_subset:
  "set (components (dirname p)) \<subseteq> insert [] (set (components p))"
proof -
  define hd where "hd = rev (dropWhile (\<lambda>c. c \<noteq> CHR ''/'') (rev p))"
  have dn: "dirname p =
    (if dropWhile (\<lambda>c. c = CHR ''/'') hd = [] then hd
     else rev (dropWhile (\<lambda>c. c = CHR ''/'') (rev hd)))"
    unfolding hd_def dirname_def Let_def ..
  have h: "set (components hd) \<subseteq> insert [] (set (components p))"
    unfolding hd_def by (rule components_head_subset)
  have s: "set (components (rev (dropWhile (\<lambda>c. c = CHR ''/'') (rev hd)))) \<subseteq> set (components hd)"
    by (rule components_strip_subset)
  show ?thesis
  proof (cases "dropWhile (\<lambda>c. c = CHR ''/'') hd = []")
    case True
    from dn have "dirname p = hd" unfolding if_P [OF True] .
    with h show ?thesis by (simp only:)
  next
    case False
    from dn have "dirname p = rev (dropWhile (\<lambda>c. c = CHR ''/'') (rev hd))"
      unfolding if_not_P [OF False] .
    with subset_trans [OF s h] show ?thesis by (simp only:)
  qed
qed

lemma dropWhile_slash_tail:
  "dropWhile P (xs @ y # ys) = dropWhile P xs @ y # ys" if "\<not> P y"
  using that by (induction xs) simp_all

lemma dirname_local_path:
  "dirname (''cache/'' @ key) = ''cache'' \<or> (\<exists>rs. dirname (''cache/'' @ key) = ''cache'' @ CHR ''/'' # rs)"
proof -
  define d where "d = dropWhile (\<lambda>c. c \<noteq> CHR ''/'') (rev key)"
  define hd where "hd = rev (dropWhile (\<lambda>c. c \<noteq> CHR ''/'') (rev (''cache/'' @ key)))"
  have "rev (''cache/'' @ key) = rev key @ CHR ''/'' # ''ehcac''" by simp
  then have "dropWhile (\<lambda>c. c \<noteq> CHR ''/'') (rev (''cache/'' @ key)) = d @ CHR ''/'' # ''ehcac''"
    unfolding d_def by (simp only: dropWhile_slash_tail [where P = "\<lambda>c. c \<noteq> CHR ''/''"] simp_thms)
  then have head: "hd = ''cache/'' @ rev d" unfolding hd_def by simp
  have dn: "dirname (''cache/'' @ key) =
    (if dropWhile (\<lambda>c. c = CHR ''/'') hd = [] then hd
     else rev (dropWhile (\<lambda>c. c = CHR ''/'') (rev hd)))"
    unfolding hd_def dirname_def Let_def ..
  have ne: "dropWhile (\<lambda>c. c = CHR ''/'') hd \<noteq> []" unfolding head by simp
  have rh: "rev hd = d @ CHR ''/'' # ''ehcac''" unfolding head by simp
  from dn have dn2: "dirname (''cache/'' @ key) =
     rev (dropWhile (\<lambda>c. c = CHR ''/'') (d @ CHR ''/'' # ''ehcac''))"
    unfolding if_not_P [OF ne] rh .
  show ?thesis
  proof (cases "dropWhile (\<lambda>c. c = CHR ''/'') d = []")
    case True
    then have "dropWhile (\<lambda>c. c = CHR ''/'') (d @ CHR ''/'' # ''ehcac'') = ''ehcac''"
      by (induction d) (simp_all split: if_splits)
    with dn2 show ?thesis by simp
  next
    case False
    then have "dropWhile (\<lambda>c. c = CHR ''/'') (d @ CHR ''/'' # ''ehcac'') =
               dropWhile (\<lambda>c. c = CHR ''/'') d @ CHR ''/'' # ''ehcac''"
      by (induction d) (simp_all split: if_splits)
    with dn2 have "dirname (''cache/'' @ key) =
      ''cache'' @ CHR ''/'' # rev (dropWhile (\<lambda>c. c = CHR ''/'') d)" by simp
    then show ?thesis by blast
  qed
qed

lemma dirname_local_components:
  assumes "take 1 key \<noteq> ''/''" and "''..'' \<notin> set (components key)"
  shows "dirname (path_join CACHE_DIR key) \<noteq> [] \<and>
         start cwd (dirname (path_join CACHE_DIR key)) = cwd \<and>
         (\<exists>cs. components (dirname (path_join CACHE_DIR key)) = ''cache'' # cs \<and> ''..'' \<notin> set cs)"
proof -
  from assms(1) have lp: "path_join CACHE_DIR key = ''cache/'' @ key"
    by (simp add: path_join_def CACHE_DIR_def)
  from components_local_path [OF assms(1)] assms(2)
  have nd: "''..'' \<notin> set (components (''cache/'' @ key))" using lp by simp
  with components_dirname_subset [of "''cache/'' @ key"]
  have nd2: "''..'' \<notin> set (components (dirname (''cache/'' @ key)))" by auto
  from dirname_local_path [of key] show ?thesis
  proof
    assume d: "dirname (''cache/'' @ key) = ''cache''"
    then show ?thesis unfolding lp by (simp add: start_def)
  next
    assume "\<exists>rs. dirname (''cache/'' @ key) = ''cache'' @ CHR ''/'' # rs"
    then obtain rs where d: "dirname (''cache/'' @ key) = ''cache'' @ CHR ''/'' # rs" by blast
    have c: "components (''cache'' @ CHR ''/'' # rs) = ''cache'' # components rs"
      using components_append [of "''cache''" rs] by simp
    from nd2 d c have "''..'' \<notin> set (components rs)" by simp
    with d c show ?thesis unfolding lp by (simp add: start_def)
  qed
qed

lemma makedirs_from_under:
  "''..'' \<notin> set cs \<Longrightarrow> snd (makedirs_from f cur cs) l \<noteq> f l \<Longrightarrow> prefix cur l"
proof (induction cs arbitrary: f cur)
  case Nil
  then show ?case by simp
next
  case (Cons c cs)
  from Cons.prems(1) have nd: "''..'' \<notin> set cs" and c: "c \<noteq> ''..''" by auto
  from c have p1: "prefix cur (step cur c)" by (rule step_prefix)
  show ?case
  proof (cases "f (step cur c)")
    case None
    show ?thesis
    proof (cases "l = step cur c")
      case True
      with p1 show ?thesis by simp
    next
      case False
      then have eq: "(f(step cur c \<mapsto> Dir)) l = f l" by simp
      from Cons.prems(2) None
      have "snd (makedirs_from (f(step cur c \<mapsto> Dir)) (step cur c) cs) l \<noteq> f l" by simp
      with eq have "snd (makedirs_from (f(step cur c \<mapsto> Dir)) (step cur c) cs) l
                      \<noteq> (f(step cur c \<mapsto> Dir)) l" by simp
      with nd have "prefix (step cur c) l" by (rule Cons.IH)
      with p1 show ?thesis by (rule prefix_order.trans)
    qed
  next
    case (Some a)
    show ?thesis
    proof (cases a)
      case (File bs)
      with Some Cons.prems(2) show ?thesis by simp
    next
      case Dir
      with Some Cons.prems(2) have "snd (makedirs_from f (step cur c) cs) l \<noteq> f l" by simp
      with nd have "prefix (step cur c) l" by (rule Cons.IH)
      with p1 show ?thesis by (rule prefix_order.trans)
    qed
  qed
qed

lemma step_cache: "step cwd ''cache'' = cwd @ [''cache'']"
  by (simp add: step_def)

lemma makedirs_local_under:
  assumes rel: "take 1 key \<noteq> ''/''" and nodd: "''..'' \<notin> set (components key)"
    and ch: "snd (makedirs fs cwd (dirname (path_join CACHE_DIR key))) l \<noteq> fs l"
  shows "prefix (cwd @ [''cache'']) l"
proof -
  define dn where "dn = dirname (path_join CACHE_DIR key)"
  obtain e fs' where m: "makedirs fs cwd dn = (e, fs')" by (cases "makedirs fs cwd dn")
  with ch have ne: "fs' l \<noteq> fs l" unfolding dn_def by simp
  with makedirs_cases [OF m]
  have mf: "makedirs_from fs (start cwd dn) (components dn) = (e, fs')" by auto
  from dirname_local_components [OF rel nodd, of cwd] obtain cs where
    st: "start cwd dn = cwd" and cs: "components dn = ''cache'' # cs" and nd: "''..'' \<notin> set cs"
    unfolding dn_def by blast
  from mf st cs have mf2: "makedirs_from fs cwd (''cache'' # cs) = (e, fs')" by simp
  show ?thesis
  proof (cases "fs (cwd @ [''cache''])")
    case None
    with mf2 have r: "makedirs_from (fs(cwd @ [''cache''] \<mapsto> Dir)) (cwd @ [''cache'']) cs = (e, fs')"
      by (simp add: step_cache)
    show ?thesis
    proof (cases "l = cwd @ [''cache'']")
      case True
      then show ?thesis by simp
    next
      case False
      with ne r have "snd (makedirs_from (fs(cwd @ [''cache''] \<mapsto> Dir)) (cwd @ [''cache'']) cs) l
                       \<noteq> (fs(cwd @ [''cache''] \<mapsto> Dir)) l" by simp
      with nd show ?thesis by (rule makedirs_from_under)
    qed
  next
    case (Some a)
    show ?thesis
    proof (cases a)
      case (File bs)
      with Some mf2 ne show ?thesis by (simp add: step_cache)
    next
      case Dir
      with Some mf2 have "makedirs_from fs (cwd @ [''cache'']) cs = (e, fs')"
        by (simp add: step_cache)
      with ne have "snd (makedirs_from fs (cwd @ [''cache'']) cs) l \<noteq> fs l" by simp
      with nd show ?thesis by (rule makedirs_from_under)
    qed
  qed
qed

lemma miss_target_fresh:
  assumes wf: "wf_fs fs" and ext: "\<And>l n. fs l = Some n \<Longrightarrow> fs1 l = Some n"
    and nd: "''..'' \<notin> set (components p)"
    and miss: "\<not> path_exists fs cwd p" and n: "namei fs1 cwd p = Inr l"
  shows "fs l = None"
proof -
  from n have pne: "p \<noteq> []" by (auto simp: namei_def split: if_splits)
  with n have w1: "walk fs1 (start cwd p) (components p) = Inr l" by (simp add: namei_def)
  have "case walk fs (start cwd p) (components p) of Inl e \<Rightarrow> True | Inr l' \<Rightarrow> fs l' = None"
  proof (cases "walk fs (start cwd p) (components p)")
    case (Inl e)
    then show ?thesis by simp
  next
    case (Inr l')
    with miss pne show ?thesis by (simp add: path_exists_def namei_def)
  qed
  from walk_fresh [OF wf ext nd w1 this] show ?thesis .
qed

lemma download_files_cases:
  obtains (only_dirs) "files (snd (download resp cwd key p w)) = snd (makedirs (files w) cwd (dirname p))"
  | (wrote) l bs where "namei (snd (makedirs (files w) cwd (dirname p))) cwd p = Inr l"
      "files (snd (download resp cwd key p w)) =
         (snd (makedirs (files w) cwd (dirname p)))(l \<mapsto> File bs)"
proof -
  obtain e1 fs1 where m: "makedirs (files w) cwd (dirname p) = (e1, fs1)"
    by (cases "makedirs (files w) cwd (dirname p)")
  show ?thesis
  proof (cases e1)
    case (Some e)
    with m have "files (snd (download resp cwd key p w)) = fs1" by (simp add: download_def)
    with m only_dirs show ?thesis by simp
  next
    case None
    show ?thesis
    proof (cases "open_wb fs1 cwd p")
      case (Inl e)
      with m None have "files (snd (download resp cwd key p w)) = fs1" by (simp add: download_def)
      with m only_dirs show ?thesis by simp
    next
      case (Inr r)
      obtain l fs2 where r: "r = (l, fs2)" by (cases r)
      from Inr r have o: "open_wb fs1 cwd p = Inr (l, fs2)" by simp
      from open_wb_Inr [OF o]
      have n: "namei fs1 cwd p = Inr l" "fs2 = fs1(l \<mapsto> File [])" by simp_all
      from write_chunks_upd [of fs1 l "[]" "body resp"] n(2)
      have wc: "write_chunks fs2 l (body resp) =
        (if complete (body resp) then None else Some ChunkedEncodingError,
         fs1(l \<mapsto> File (received (body resp))))" by simp
      from m None o wc
      have "files (snd (download resp cwd key p w)) = fs1(l \<mapsto> File (received (body resp)))"
        by (simp add: download_def)
      with n(1) m wrote show ?thesis by simp
    qed
  qed
qed

lemma fetch_files_cases:
  obtains (same) "files (snd (fetch_s3_file remote cwd b key w)) = files w"
  | (dl) resp where "\<not> path_exists (files w) cwd (path_join CACHE_DIR key)"
      "files (snd (fetch_s3_file remote cwd b key w)) =
         files (snd (download resp cwd key (path_join CACHE_DIR key)
                      (w\<lparr>requests := requests w @ [s3_url b key]\<rparr>)))"
proof (cases "path_exists (files w) cwd (path_join CACHE_DIR key)")
  case True
  then have "files (snd (fetch_s3_file remote cwd b key w)) = files w" by (simp add: fetch_hit)
  with same show ?thesis .
next
  case False
  show ?thesis
  proof (cases "remote (s3_url b key)")
    case (Inl e)
    with False have "files (snd (fetch_s3_file remote cwd b key w)) = files w"
      by (simp add: fetch_miss)
    with same show ?thesis .
  next
    case (Inr resp)
    show ?thesis
    proof (cases "400 \<le> status_code resp \<and> status_code resp < 600")
      case True
      with False Inr have "files (snd (fetch_s3_file remote cwd b key w)) = files w"
        by (simp add: fetch_miss)
      with same show ?thesis .
    next
      case F: False
      with False Inr have eq:
        "files (snd (fetch_s3_file remote cwd b key w)) =
         files (snd (download resp cwd key (path_join CACHE_DIR key)
                      (w\<lparr>requests := requests w @ [s3_url b key]\<rparr>)))"
        by (auto simp: fetch_miss)
      from dl [OF False eq] show ?thesis .
    qed
  qed
qed

lemma fetch_preserves:
  assumes wf: "wf_fs (files w)" and nodd: "''..'' \<notin> set (components key)"
    and ex: "files w l0 = Some n"
  shows "files (snd (fetch_s3_file remote cwd b key w)) l0 = Some n"
proof (cases rule: fetch_files_cases [of remote cwd b key w])
  case same
  with ex show ?thesis by simp
next
  case (dl resp)
  define p where "p = path_join CACHE_DIR key"
  define w1 where "w1 = w\<lparr>requests := requests w @ [s3_url b key]\<rparr>"
  define fs1 where "fs1 = snd (makedirs (files w) cwd (dirname p))"
  have fw: "files w1 = files w" by (simp add: w1_def)
  have ext: "\<And>l n. files w l = Some n \<Longrightarrow> fs1 l = Some n"
    unfolding fs1_def by (rule makedirs_extends)
  from dl(2) have f: "files (snd (fetch_s3_file remote cwd b key w)) =
                      files (snd (download resp cwd key p w1))"
    unfolding p_def w1_def .
  show ?thesis
  proof (cases rule: download_files_cases [of resp cwd key p w1])
    case only_dirs
    with f fw ext [OF ex] show ?thesis by (simp add: fs1_def)
  next
    case (wrote l bs)
    from wrote(1) fw have n: "namei fs1 cwd p = Inr l" by (simp add: fs1_def)
    from local_path_no_dotdot [OF nodd] have nd: "''..'' \<notin> set (components p)"
      by (simp add: p_def)
    from dl(1) have miss: "\<not> path_exists (files w) cwd p" by (simp add: p_def)
    from miss_target_fresh [OF wf ext nd miss n] have "files w l = None" .
    with ex have "l0 \<noteq> l" by auto
    with wrote(2) f fw ext [OF ex] show ?thesis by (simp add: fs1_def)
  qed
qed

lemma fetch_success_frame:
  assumes wf: "wf_fs (files w)" and nodd: "''..'' \<notin> set (components key)"
    and rel: "take 1 key \<noteq> ''/''"
    and miss: "\<not> path_exists (files w) cwd (path_join CACHE_DIR key)"
    and ok: "fetch_s3_file remote cwd b key w = (Inr p, w1)"
  shows "\<exists>lf bs. files w lf = None \<and> files w1 lf = Some (File bs) \<and>
           prefix (cwd @ [''cache'']) lf \<and>
           (\<forall>l. l \<noteq> lf \<and> files w1 l \<noteq> files w l \<longrightarrow>
                files w1 l = Some Dir \<and> prefix (cwd @ [''cache'']) l)"
proof -
  define pj where "pj = path_join CACHE_DIR key"
  define w0 where "w0 = w\<lparr>requests := requests w @ [s3_url b key]\<rparr>"
  have fw: "files w0 = files w" by (simp add: w0_def)
  from fetch_miss_Inr [OF miss ok] obtain resp where
    d: "download resp cwd key pj w0 = (Inr p, w1)" unfolding pj_def w0_def by blast
  from download_Inr [OF d] fw obtain fs1 lf where
    m: "makedirs (files w) cwd (dirname pj) = (None, fs1)" and
    n: "namei fs1 cwd pj = Inr lf" and
    f: "files w1 = fs1(lf \<mapsto> File (received (body resp)))"
    by auto
  from m have fs1: "fs1 = snd (makedirs (files w) cwd (dirname pj))" by simp
  have ext: "\<And>l n. files w l = Some n \<Longrightarrow> fs1 l = Some n"
    unfolding fs1 by (rule makedirs_extends)
  from local_path_no_dotdot [OF nodd] have nd: "''..'' \<notin> set (components pj)"
    by (simp add: pj_def)
  from miss have miss': "\<not> path_exists (files w) cwd pj" by (simp add: pj_def)
  from miss_target_fresh [OF wf ext nd miss' n] have fresh: "files w lf = None" .
  from rel have lp: "pj = ''cache/'' @ key" by (simp add: pj_def path_join_def CACHE_DIR_def)
  from components_local_path [OF rel] have cp: "components pj = ''cache'' # components key"
    by (simp add: pj_def)
  from n lp cp have "walk fs1 cwd (''cache'' # components key) = Inr lf"
    by (simp add: namei_def start_def)
  from walk_Cons_Inr [OF this] have "walk fs1 (cwd @ [''cache'']) (components key) = Inr lf"
    by (simp add: step_cache)
  from walk_prefix [OF nodd this] have plf: "prefix (cwd @ [''cache'']) lf" .
  have others: "files w1 l = Some Dir \<and> prefix (cwd @ [''cache'']) l"
    if "l \<noteq> lf" and "files w1 l \<noteq> files w l" for l
  proof -
    from that f have ch: "snd (makedirs (files w) cwd (dirname pj)) l \<noteq> files w l"
      by (simp add: fs1)
    from makedirs_new [OF ch] that(1) f have "files w1 l = Some Dir" by (simp add: fs1)
    moreover from ch have "prefix (cwd @ [''cache'']) l"
      unfolding pj_def by (rule makedirs_local_under [OF rel nodd])
    ultimately show ?thesis by simp
  qed
  from f have "files w1 lf = Some (File (received (body resp)))" by simp
  with fresh plf others show ?thesis by blast
qed

text \<open>
  C9 (as amended). On a well-formed file system and for a key without a \<open>..\<close> segment,
  no call, successful or not, changes or removes anything that exists: not the entry of
  the requested key, not the entry of any other key, not a directory. If the key is also
  relative, a successful call changes nothing on a cache hit, and on a cache miss it
  creates exactly one new file, under the cache directory, and apart from it only new
  directories under the cache directory (the cache directory itself among them).
\<close>

theorem frame_without_dotdot:
  assumes "wf_fs (files w)" and "''..'' \<notin> set (components key)"
  shows "(\<forall>l n. files w l = Some n \<longrightarrow>
            files (snd (fetch_s3_file remote cwd b key w)) l = Some n) \<and>
         (take 1 key \<noteq> ''/'' \<and> fst (fetch_s3_file remote cwd b key w) = Inr p \<longrightarrow>
            (if path_exists (files w) cwd (path_join CACHE_DIR key)
             then files (snd (fetch_s3_file remote cwd b key w)) = files w
             else (\<exists>lf bs. files w lf = None \<and>
                     files (snd (fetch_s3_file remote cwd b key w)) lf = Some (File bs) \<and>
                     prefix (cwd @ [CACHE_DIR]) lf \<and>
                     (\<forall>l. l \<noteq> lf \<and> files (snd (fetch_s3_file remote cwd b key w)) l \<noteq> files w l \<longrightarrow>
                          files (snd (fetch_s3_file remote cwd b key w)) l = Some Dir \<and>
                          prefix (cwd @ [CACHE_DIR]) l))))"
proof (intro conjI allI impI)
  fix l n
  assume "files w l = Some n"
  with assms show "files (snd (fetch_s3_file remote cwd b key w)) l = Some n"
    by (rule fetch_preserves)
next
  assume a: "take 1 key \<noteq> ''/'' \<and> fst (fetch_s3_file remote cwd b key w) = Inr p"
  obtain r w1 where rw: "fetch_s3_file remote cwd b key w = (r, w1)"
    by (cases "fetch_s3_file remote cwd b key w")
  with a have ok: "fetch_s3_file remote cwd b key w = (Inr p, w1)" by simp
  show "if path_exists (files w) cwd (path_join CACHE_DIR key)
        then files (snd (fetch_s3_file remote cwd b key w)) = files w
        else (\<exists>lf bs. files w lf = None \<and>
                files (snd (fetch_s3_file remote cwd b key w)) lf = Some (File bs) \<and>
                prefix (cwd @ [CACHE_DIR]) lf \<and>
                (\<forall>l. l \<noteq> lf \<and> files (snd (fetch_s3_file remote cwd b key w)) l \<noteq> files w l \<longrightarrow>
                     files (snd (fetch_s3_file remote cwd b key w)) l = Some Dir \<and>
                     prefix (cwd @ [CACHE_DIR]) l))"
  proof (cases "path_exists (files w) cwd (path_join CACHE_DIR key)")
    case True
    then show ?thesis by (simp add: fetch_hit)
  next
    case False
    from a have rel: "take 1 key \<noteq> ''/''" by simp
    from fetch_success_frame [OF assms rel False ok] False ok
    show ?thesis by (simp add: CACHE_DIR_def)
  qed
qed

lemma wf_disk0: "wf_fs (files world0)"
  by (auto simp: wf_fs_def world0_def disk0_def split: if_splits)

text \<open>The first download of \<open>a/b\<close> into an empty cache is such a call.\<close>

theorem frame_without_dotdot_witness:
  "wf_fs (files world0) \<and> ''..'' \<notin> set (components ''a/b'') \<and> take 1 ''a/b'' \<noteq> ''/'' \<and>
   fst (fetch_s3_file (serves (s3_url ''bkt'' ''a/b'') object_abcd) home ''bkt'' ''a/b'' world0) =
     Inr ''cache/a/b'' \<and>
   files world0 [''home''] = Some Dir \<and>
   files (snd (fetch_s3_file (serves (s3_url ''bkt'' ''a/b'') object_abcd) home ''bkt'' ''a/b''
                 world0)) [''home''] = Some Dir \<and>
   \<not> path_exists (files world0) home (path_join CACHE_DIR ''a/b'') \<and>
   (\<exists>lf bs. files world0 lf = None \<and>
      files (snd (fetch_s3_file (serves (s3_url ''bkt'' ''a/b'') object_abcd) home ''bkt'' ''a/b''
                    world0)) lf = Some (File bs) \<and>
      prefix (home @ [CACHE_DIR]) lf)"
proof -
  have nd: "''..'' \<notin> set (components ''a/b'')" by simp
  have rel: "take 1 ''a/b'' \<noteq> ''/''" by simp
  have h: "files world0 [''home''] = Some Dir" by (simp add: world0_def disk0_def)
  have ok: "fst (fetch_s3_file (serves (s3_url ''bkt'' ''a/b'') object_abcd) home ''bkt'' ''a/b''
                   world0) = Inr ''cache/a/b''"
    by (simp add: fetch_world0_complete)
  from frame_without_dotdot [OF wf_disk0 nd,
      of "serves (s3_url ''bkt'' ''a/b'') object_abcd" home "''bkt''" "''cache/a/b''"]
    wf_disk0 nd rel h ok not_exists_world0
  show ?thesis by auto
qed

text \<open>
  C9, the claim as stated, fails for a key with a \<open>..\<close> segment: with \<open>a/b\<close> in the
  cache, the path of the key \<open>a/x/../b\<close> does not exist while \<open>cache/a/x\<close> is
  missing, so the call makes that directory and then opens \<open>cache/a/x/../b\<close>, which is
  the entry of \<open>a/b\<close>. The entry is truncated and, the transfer breaking, left with 2
  of its 4 bytes.
\<close>

theorem frame_overwrite_counterexample:
  "files world_cached [''home'', ''cache'', ''a'', ''b''] = Some (File ''abcd'') \<and>
   fetch_s3_file (serves (s3_url ''bkt'' ''a/x/../b'') broken_abcd) home ''bkt'' ''a/x/../b''
       world_cached =
     (Inl ChunkedEncodingError,
      \<lparr>files = (files world_cached)
                 ([''home'', ''cache'', ''a'', ''x''] \<mapsto> Dir,
                  [''home'', ''cache'', ''a'', ''b''] \<mapsto> File ''ab''),
       requests = [''https://bkt.s3.amazonaws.com/a/x/../b''],
       stdout = []\<rparr>)"
  by (simp add: eval_defs)

end
